theory Spec2Isabelle
  imports Main
begin

section \<open>Common data\<close>

text \<open>
  Exceptions of the Python code, as values. \<open>GithubException\<close> carries the HTTP
  status; \<open>ReError\<close> is \<open>re.error\<close>; \<open>OtherException\<close> stands for every other
  exception class (network failures, decoding errors), with its message.
\<close>

datatype exn =
    ValueError
  | KeyError string
  | GithubException nat
  | ReError string
  | OtherException string

section \<open>Phase 1: Collector (scripts/collector.py)\<close>

subsection \<open>Data\<close>

text \<open>
  A commit as \<open>GitHubClient.get_commits\<close> returns it. Only the \<open>type\<close> key is read by
  the scorer, through \<open>commit.get("type", "other")\<close>: \<open>None\<close> is the absent key.
\<close>

record commit =
  c_message :: string
  c_type :: "string option"

record release =
  r_tag :: string

text \<open>The \<open>scoring\<close> section of config/settings.yaml. Python integers are unbounded.\<close>

record scoring =
  new_release :: int
  readme_changed_w :: int
  feat_commit :: int
  refactor_commit :: int
  fix_commit :: int
  no_commits :: int
  update_threshold :: int

text \<open>The fields of a \<open>Collector\<close> object that the modelled methods read.\<close>

record collector =
  scoring_cfg :: scoring
  dry_run :: bool
  force_update :: bool

record significance =
  change_score :: int
  status :: string
  change_reason :: string

subsection \<open>\<open>Collector._calculate_significance\<close>\<close>

definition commit_type :: "commit \<Rightarrow> string" where
  "commit_type c = (case c_type c of None \<Rightarrow> ''other'' | Some t \<Rightarrow> t)"

text \<open>\<open>if name not in reasons: reasons.append(name)\<close>\<close>

definition add_reason :: "string \<Rightarrow> string list \<Rightarrow> string list" where
  "add_reason name reasons = (if name \<in> set reasons then reasons else reasons @ [name])"

text \<open>The loop \<open>for commit in commits\<close> over the pair (score, reasons).\<close>

fun score_commits :: "scoring \<Rightarrow> commit list \<Rightarrow> int \<times> string list \<Rightarrow> int \<times> string list" where
  "score_commits sc [] acc = acc"
| "score_commits sc (c # cs) (score, reasons) =
     (if commit_type c = ''feat'' then
        score_commits sc cs (score + feat_commit sc, add_reason ''feature_commit'' reasons)
      else if commit_type c = ''refactor'' then
        score_commits sc cs (score + refactor_commit sc, add_reason ''refactor_commit'' reasons)
      else if commit_type c = ''fix'' then
        score_commits sc cs (score + fix_commit sc, add_reason ''fix_commit'' reasons)
      else score_commits sc cs (score, reasons))"

definition calculate_significance ::
  "collector \<Rightarrow> commit list \<Rightarrow> release list \<Rightarrow> bool \<Rightarrow> bool \<Rightarrow> significance" where
  "calculate_significance self commits releases readme_changed is_new =
     (let sc = scoring_cfg self in
      if is_new then
        \<lparr>change_score = 999, status = ''new'', change_reason = ''new_project''\<rparr>
      else if commits = [] \<and> releases = [] then
        \<lparr>change_score = no_commits sc, status = ''skip'', change_reason = ''no_activity''\<rparr>
      else
        let acc0 = (0, []);
            acc1 = (if releases \<noteq> []
                    then (fst acc0 + new_release sc, snd acc0 @ [''release_tag''])
                    else acc0);
            acc2 = (if readme_changed
                    then (fst acc1 + readme_changed_w sc, snd acc1 @ [''readme_changed''])
                    else acc1);
            acc3 = score_commits sc commits acc2;
            score = fst acc3;
            reasons = snd acc3
        in \<lparr>change_score = score,
            status = (if score \<ge> update_threshold sc then ''update'' else ''skip''),
            change_reason = (case reasons of [] \<Rightarrow> ''low_significance'' | r # _ \<Rightarrow> r)\<rparr>)"

text \<open>
  The weights of the docstring of \<open>_calculate_significance\<close> (release 100, README 40,
  feat and refactor 30, fix 15, no commits -999) with an update threshold of 50.
\<close>

definition default_scoring :: scoring where
  "default_scoring =
     \<lparr>new_release = 100, readme_changed_w = 40, feat_commit = 30, refactor_commit = 30,
      fix_commit = 15, no_commits = - 999, update_threshold = 50\<rparr>"

definition default_collector :: collector where
  "default_collector = \<lparr>scoring_cfg = default_scoring, dry_run = False, force_update = False\<rparr>"

text \<open>
  The same weights with a no-activity score of 200: every configured value is
  nonnegative.
\<close>

definition positive_sentinel_collector :: collector where
  "positive_sentinel_collector =
     \<lparr>scoring_cfg = default_scoring\<lparr>no_commits := 200\<rparr>, dry_run = False,
      force_update = False\<rparr>"

subsection \<open>Specification-level notions used to state the scorer's properties\<close>

text \<open>The bonus one commit adds to the score.\<close>

definition commit_weight :: "scoring \<Rightarrow> commit \<Rightarrow> int" where
  "commit_weight sc c =
     (if commit_type c = ''feat'' then feat_commit sc
      else if commit_type c = ''refactor'' then refactor_commit sc
      else if commit_type c = ''fix'' then fix_commit sc
      else 0)"

text \<open>The reason token of one commit, when its type is a scored one.\<close>

definition commit_reason :: "commit \<Rightarrow> string option" where
  "commit_reason c =
     (if commit_type c = ''feat'' then Some ''feature_commit''
      else if commit_type c = ''refactor'' then Some ''refactor_commit''
      else if commit_type c = ''fix'' then Some ''fix_commit''
      else None)"

text \<open>The reason token of the first commit of the list, in list order, that has one.\<close>

fun first_commit_reason :: "commit list \<Rightarrow> string option" where
  "first_commit_reason [] = None"
| "first_commit_reason (c # cs) =
     (case commit_reason c of Some r \<Rightarrow> Some r | None \<Rightarrow> first_commit_reason cs)"

text \<open>
  The reason as the specification words it: the first category that contributed a
  nonzero bonus, taken in the fixed priority order release, readme-changed, feat,
  refactor, fix, whatever the order of the commits in the list.
\<close>

definition reason_by_fixed_priority ::
  "scoring \<Rightarrow> commit list \<Rightarrow> release list \<Rightarrow> bool \<Rightarrow> string" where
  "reason_by_fixed_priority sc commits releases readme_changed =
     (if releases \<noteq> [] \<and> new_release sc \<noteq> 0 then ''release_tag''
      else if readme_changed \<and> readme_changed_w sc \<noteq> 0 then ''readme_changed''
      else if list_ex (\<lambda>c. commit_type c = ''feat'') commits \<and> feat_commit sc \<noteq> 0
        then ''feature_commit''
      else if list_ex (\<lambda>c. commit_type c = ''refactor'') commits \<and> refactor_commit sc \<noteq> 0
        then ''refactor_commit''
      else if list_ex (\<lambda>c. commit_type c = ''fix'') commits \<and> fix_commit sc \<noteq> 0
        then ''fix_commit''
      else ''low_significance'')"

subsection \<open>\<open>Collector._collect_project\<close> and \<open>Collector.run\<close>\<close>

text \<open>
  One entry of the index \<open>BioSiteClient.get_project_index\<close> builds, and the default
  \<open>bio_index.get(slug, {...})\<close> falls back to.
\<close>

record bio_state =
  bs_exists :: bool
  bs_locked :: bool
  bs_content :: "string option"
  bs_manual_sections :: "string list"
  bs_last_deploy :: "string option"

definition default_bio_state :: bio_state where
  "default_bio_state =
     \<lparr>bs_exists = False, bs_locked = False, bs_content = None, bs_manual_sections = [],
      bs_last_deploy = None\<rparr>"

text \<open>
  What the five GitHub queries of \<open>_collect_project\<close> (lines 160-164) return together.
  They sit in one \<open>try\<close> whose handler catches every exception, so the model takes them
  as one query \<open>fetch owner repo\<close>: \<open>Inl msg\<close> when any of them raised (\<open>msg\<close> is
  \<open>str(e)\<close>), \<open>Inr\<close> of the data otherwise.
\<close>

record activity =
  a_commits :: "commit list"
  a_releases :: "release list"
  a_readme_content :: string

text \<open>
  A project entry of context.json. The keys that only feed the prompt (languages, stars,
  excerpts) are left out; \<open>p_current_html\<close> is \<open>None\<close> where the key is absent or null.
\<close>

record project_data =
  p_slug :: string
  p_repo :: string
  p_exists :: bool
  p_locked :: bool
  p_status :: string
  p_change_score :: int
  p_change_reason :: string
  p_current_html :: "string option"
  p_manual_sections :: "string list"

text \<open>Python's \<open>s.split(d)\<close> for a one-character separator.\<close>

fun split_on :: "char \<Rightarrow> string \<Rightarrow> string list" where
  "split_on d [] = [[]]"
| "split_on d (c # cs) =
     (if c = d then [] # split_on d cs
      else (case split_on d cs of [] \<Rightarrow> [[c]] | w # ws \<Rightarrow> (c # w) # ws))"

text \<open>\<open>Collector._check_readme_changed\<close>: the computed hash is never used.\<close>

definition check_readme_changed :: "string \<Rightarrow> bio_state \<Rightarrow> bool" where
  "check_readme_changed readme_content bio =
     (if \<not> bs_exists bio then True else readme_content \<noteq> [])"

text \<open>
  \<open>owner, repo = repo_full_name.split("/")\<close> raises ValueError unless the name has
  exactly one slash; nothing catches it.
\<close>

definition collect_project ::
  "collector \<Rightarrow> (string \<Rightarrow> string \<Rightarrow> string + activity) \<Rightarrow> (string \<rightharpoonup> bio_state)
     \<Rightarrow> string \<Rightarrow> exn + project_data" where
  "collect_project self fetch bio_index repo_full_name =
     (case split_on CHR ''/'' repo_full_name of
        [owner, repo] \<Rightarrow>
          (let slug = repo;
               bio = (case bio_index slug of None \<Rightarrow> default_bio_state | Some b \<Rightarrow> b)
           in if bs_locked bio then
                Inr \<lparr>p_slug = slug, p_repo = repo_full_name, p_exists = True, p_locked = True,
                     p_status = ''skip'', p_change_score = 0, p_change_reason = ''locked'',
                     p_current_html = None, p_manual_sections = []\<rparr>
              else
                (case fetch owner repo of
                   Inl msg \<Rightarrow>
                     Inr \<lparr>p_slug = slug, p_repo = repo_full_name, p_exists = bs_exists bio,
                          p_locked = False, p_status = ''error'', p_change_score = 0,
                          p_change_reason = ''fetch_error: '' @ msg,
                          p_current_html = None, p_manual_sections = []\<rparr>
                 | Inr a \<Rightarrow>
                     (let readme_changed = check_readme_changed (a_readme_content a) bio;
                          sig0 = calculate_significance self (a_commits a) (a_releases a)
                                   readme_changed (\<not> bs_exists bio);
                          sig = (if force_update self \<and> status sig0 = ''skip''
                                 then sig0\<lparr>status := ''update'', change_reason := ''force_update''\<rparr>
                                 else sig0)
                      in Inr \<lparr>p_slug = slug, p_repo = repo_full_name, p_exists = bs_exists bio,
                              p_locked = False, p_status = status sig,
                              p_change_score = change_score sig,
                              p_change_reason = change_reason sig,
                              p_current_html = bs_content bio,
                              p_manual_sections = bs_manual_sections bio\<rparr>)))
      | _ \<Rightarrow> Inl ValueError)"

record summary =
  s_total :: nat
  s_updates :: nat
  s_skips :: nat
  s_new :: nat
  s_locked :: nat

record run_context =
  ctx_projects :: "project_data list"
  ctx_summary :: summary

text \<open>The \<open>if/elif/elif/else\<close> of lines 83-90.\<close>

definition update_summary :: "project_data \<Rightarrow> summary \<Rightarrow> summary" where
  "update_summary pd s =
     (if p_locked pd then s\<lparr>s_locked := s_locked s + 1\<rparr>
      else if p_status pd = ''update'' then s\<lparr>s_updates := s_updates s + 1\<rparr>
      else if p_status pd = ''new'' then s\<lparr>s_new := s_new s + 1\<rparr>
      else s\<lparr>s_skips := s_skips s + 1\<rparr>)"

text \<open>The loop \<open>for repo_full_name in projects\<close>; an uncaught exception ends the run.\<close>

fun collect_loop ::
  "collector \<Rightarrow> (string \<Rightarrow> string \<Rightarrow> string + activity) \<Rightarrow> (string \<rightharpoonup> bio_state)
     \<Rightarrow> string list \<Rightarrow> run_context \<Rightarrow> exn + run_context" where
  "collect_loop self fetch bio_index [] ctx = Inr ctx"
| "collect_loop self fetch bio_index (r # rs) ctx =
     (case collect_project self fetch bio_index r of
        Inl e \<Rightarrow> Inl e
      | Inr pd \<Rightarrow>
          collect_loop self fetch bio_index rs
            \<lparr>ctx_projects = ctx_projects ctx @ [pd],
             ctx_summary = update_summary pd (ctx_summary ctx)\<rparr>)"

text \<open>
  \<open>Collector.run\<close>, from the discovered project list and the index built in steps 1 and 2
  (both are remote reads) to the context it returns.
\<close>

definition run ::
  "collector \<Rightarrow> (string \<Rightarrow> string \<Rightarrow> string + activity) \<Rightarrow> (string \<rightharpoonup> bio_state)
     \<Rightarrow> string list \<Rightarrow> exn + run_context" where
  "run self fetch bio_index projects =
     collect_loop self fetch bio_index projects
       \<lparr>ctx_projects = [],
        ctx_summary = \<lparr>s_total = length projects, s_updates = 0, s_skips = 0, s_new = 0,
                       s_locked = 0\<rparr>\<rparr>"

text \<open>The bucket conditions of the summary, as predicates on a project entry.\<close>

definition in_locked :: "project_data \<Rightarrow> bool" where
  "in_locked pd = p_locked pd"

definition in_updates :: "project_data \<Rightarrow> bool" where
  "in_updates pd = (\<not> p_locked pd \<and> p_status pd = ''update'')"

definition in_new :: "project_data \<Rightarrow> bool" where
  "in_new pd = (\<not> p_locked pd \<and> p_status pd \<noteq> ''update'' \<and> p_status pd = ''new'')"

definition in_skips :: "project_data \<Rightarrow> bool" where
  "in_skips pd = (\<not> p_locked pd \<and> p_status pd \<noteq> ''update'' \<and> p_status pd \<noteq> ''new'')"

text \<open>A fetch that fails for every repository.\<close>

definition failing_fetch :: "string \<Rightarrow> string \<Rightarrow> string + activity" where
  "failing_fetch owner repo = Inl ''timeout''"

text \<open>Example commits, a release and an index with one locked page.\<close>

definition feat_c :: commit where
  "feat_c = \<lparr>c_message = ''feat: add page'', c_type = Some ''feat''\<rparr>"

definition fix_c :: commit where
  "fix_c = \<lparr>c_message = ''fix: typo'', c_type = Some ''fix''\<rparr>"

definition chore_c :: commit where
  "chore_c = \<lparr>c_message = ''chore: bump'', c_type = Some ''chore''\<rparr>"

definition rel1 :: release where
  "rel1 = \<lparr>r_tag = ''v1.0''\<rparr>"

definition index0 :: "string \<rightharpoonup> bio_state" where
  "index0 = [''kept'' \<mapsto> \<lparr>bs_exists = True, bs_locked = True, bs_content = Some ''<!-- LOCK -->'',
                           bs_manual_sections = [], bs_last_deploy = None\<rparr>]"

section \<open>Text\<close>

text \<open>
  Text is modelled as \<open>string\<close> over ASCII. \<open>starts_with p s\<close> is \<open>s.startswith(p)\<close>,
  \<open>has_sub p s\<close> is \<open>p in s\<close> and \<open>lower\<close> is \<open>str.lower\<close>.
\<close>

fun starts_with :: "string \<Rightarrow> string \<Rightarrow> bool" where
  "starts_with [] s = True"
| "starts_with (p # ps) [] = False"
| "starts_with (p # ps) (c # cs) = (p = c \<and> starts_with ps cs)"

fun has_sub :: "string \<Rightarrow> string \<Rightarrow> bool" where
  "has_sub p [] = (p = [])"
| "has_sub p (c # cs) = (starts_with p (c # cs) \<or> has_sub p cs)"

definition is_upper :: "char \<Rightarrow> bool" where
  "is_upper c = (65 \<le> (of_char c :: nat) \<and> (of_char c :: nat) \<le> 90)"

definition is_lower :: "char \<Rightarrow> bool" where
  "is_lower c = (97 \<le> (of_char c :: nat) \<and> (of_char c :: nat) \<le> 122)"

definition is_digit :: "char \<Rightarrow> bool" where
  "is_digit c = (48 \<le> (of_char c :: nat) \<and> (of_char c :: nat) \<le> 57)"

text \<open>An upper-case letter and its lower-case letter differ in bit 5 (the code is 32 higher).\<close>

definition lower_char :: "char \<Rightarrow> char" where
  "lower_char c =
     (if is_upper c
      then Char (digit0 c) (digit1 c) (digit2 c) (digit3 c) (digit4 c) True (digit6 c) (digit7 c)
      else c)"

definition lower :: "string \<Rightarrow> string" where
  "lower s = map lower_char s"

text \<open>\<open>sep.join(xs)\<close>\<close>

fun join :: "string \<Rightarrow> string list \<Rightarrow> string" where
  "join sep [] = []"
| "join sep [x] = x"
| "join sep (x # y # ys) = x @ sep @ join sep (y # ys)"

section \<open>Phase 3: Editor (scripts/editor.py)\<close>

subsection \<open>The reviewer's answer\<close>

text \<open>
  The value of the key \<open>issues\<close> of the reviewer's object: the key is absent, or its value
  is a list, or its value is anything else (null, a string, a number, an object), on which
  \<open>append\<close> raises AttributeError.
\<close>

datatype issues_value = NoIssues | Issues "string list" | NotAList

text \<open>
  The value of the key \<open>status\<close>: a string, or a list or an object, which cannot be looked
  up in a dictionary. A number, a boolean and null differ from every status name and
  are read as a string that is no status name.
\<close>

datatype status_value = Str string | Unhashable

text \<open>
  The JSON object the reviewer returned, as \<open>json.loads\<close> parsed it, and, once
  \<open>EditorAgent.run\<close> has stored it with its slug, an entry of editor_results.json. A key the
  object may lack is an option; \<open>None\<close> is the absent key. Of a reason only its text is
  kept.
\<close>

record review =
  rv_slug :: "string option"
  rv_status :: "status_value option"
  rv_reason :: "string option"
  rv_issues :: issues_value
  rv_diff_summary :: "string option"
  rv_change_percentage :: "int option"

text \<open>What \<open>json.loads\<close> returned: an object, or any other JSON value.\<close>

datatype json_value = JObject review | JOther

text \<open>
  The \<open>policy\<close> section of the configuration; \<open>None\<close> is the absent key. The code reads
  \<open>policy["forbidden_words"]\<close> and \<open>policy.get("required_sections", [])\<close>.
\<close>

record policy =
  forbidden_words :: "string list option"
  required_sections :: "string list option"

text \<open>
  \<open>KeyError(k)\<close>, whose text is \<open>repr(k)\<close>: the key between single quotes. Of an
  AttributeError and a TypeError the model keeps the class; the message names the type
  of the value at hand.
\<close>

definition key_error :: "string \<Rightarrow> exn" where
  "key_error k = KeyError ([CHR 0x27] @ k @ [CHR 0x27])"

definition attribute_error :: exn where
  "attribute_error = OtherException ''AttributeError''"

definition type_error :: exn where
  "type_error = OtherException ''TypeError''"

subsection \<open>\<open>EditorAgent._is_valid_html\<close>\<close>

text \<open>
  \<open>len(re.findall(r'<[a-z]', s))\<close> and \<open>len(re.findall(r'</[a-z]', s))\<close>: the scan resumes
  after each match.
\<close>

fun count_open_tags :: "string \<Rightarrow> nat" where
  "count_open_tags (a # b # cs) =
     (if a = CHR ''<'' \<and> is_lower b then 1 + count_open_tags cs else count_open_tags (b # cs))"
| "count_open_tags cs = 0"

fun count_close_tags :: "string \<Rightarrow> nat" where
  "count_close_tags (a # b # c # cs) =
     (if a = CHR ''<'' \<and> b = CHR ''/'' \<and> is_lower c then 1 + count_close_tags cs
      else count_close_tags (b # c # cs))"
| "count_close_tags cs = 0"

definition is_valid_html :: "string \<Rightarrow> bool" where
  "is_valid_html html =
     (let has_html = (has_sub ''<html'' (lower html) \<and> has_sub ''</html>'' (lower html));
          has_body = (has_sub ''<body'' (lower html) \<and> has_sub ''</body>'' (lower html));
          open_tags = int (count_open_tags (lower html));
          close_tags = int (count_close_tags (lower html))
      in has_html \<and> has_body \<and> \<bar>open_tags - close_tags\<bar> < 10)"

subsection \<open>\<open>EditorAgent._add_deterministic_checks\<close>\<close>

definition found_forbidden :: "string list \<Rightarrow> string \<Rightarrow> string list" where
  "found_forbidden words draft = filter (\<lambda>word. has_sub (lower word) (lower draft)) words"

definition missing_section :: "string \<Rightarrow> string \<Rightarrow> bool" where
  "missing_section draft sec =
     (\<not> has_sub (''id='' @ [CHR 0x22] @ sec @ [CHR 0x22]) draft
      \<and> \<not> has_sub (''id='' @ [CHR 0x27] @ sec @ [CHR 0x27]) draft)"

text \<open>
  The local variable \<open>issues = verdict.get("issues", [])\<close>: \<open>Some\<close> of a list, or \<open>None\<close>
  for a value that is not a list.
\<close>

definition get_issues :: "review \<Rightarrow> string list option" where
  "get_issues verdict =
     (case rv_issues verdict of NoIssues \<Rightarrow> Some [] | Issues xs \<Rightarrow> Some xs | NotAList \<Rightarrow> None)"

text \<open>\<open>issues.append(x)\<close>\<close>

definition append_issue :: "string list option \<Rightarrow> string \<Rightarrow> exn + string list option" where
  "append_issue issues x =
     (case issues of
        None \<Rightarrow> Inl attribute_error
      | Some xs \<Rightarrow> Inr (Some (xs @ [x])))"

text \<open>Check 3, the loop over the required sections.\<close>

fun append_missing :: "string \<Rightarrow> string list option \<Rightarrow> string list \<Rightarrow> exn + string list option" where
  "append_missing draft issues [] = Inr issues"
| "append_missing draft issues (sec # secs) =
     (if missing_section draft sec then
        (case append_issue issues (''Missing required section: '' @ sec) of
           Inl e \<Rightarrow> Inl e
         | Inr issues' \<Rightarrow> append_missing draft issues' secs)
      else append_missing draft issues secs)"

text \<open>
  Check 1 (lines 228-239): \<open>policy["forbidden_words"]\<close> raises KeyError when the key is
  absent. When a forbidden word is found, the issue is appended first, then
  \<open>verdict["status"]\<close> is read, which raises KeyError when the verdict has no status.
\<close>

definition check_forbidden ::
  "policy \<Rightarrow> string \<Rightarrow> string list option \<times> review \<Rightarrow> exn + string list option \<times> review" where
  "check_forbidden pol draft st =
     (case forbidden_words pol of
        None \<Rightarrow> Inl (key_error ''forbidden_words'')
      | Some words \<Rightarrow>
          (let found = found_forbidden words draft in
           if found \<noteq> [] then
             (case append_issue (fst st) (''Forbidden words found: '' @ join '', '' found) of
                Inl e \<Rightarrow> Inl e
              | Inr issues \<Rightarrow>
                  (case rv_status (snd st) of
                     None \<Rightarrow> Inl (key_error ''status'')
                   | Some s \<Rightarrow>
                       if s = Str ''APPROVE'' then
                         Inr (issues,
                              (snd st)\<lparr>rv_status := Some (Str ''FLAGGED''),
                                       rv_reason := Some (''Contains forbidden words: ''
                                                          @ join '', '' found)\<rparr>)
                       else Inr (issues, snd st)))
           else Inr st))"

text \<open>Check 2 (lines 241-245): the issue is appended first, then the status is set.\<close>

definition check_html ::
  "string \<Rightarrow> string list option \<times> review \<Rightarrow> exn + string list option \<times> review" where
  "check_html draft st =
     (if \<not> is_valid_html draft then
        (case append_issue (fst st) ''HTML structure appears invalid'' of
           Inl e \<Rightarrow> Inl e
         | Inr issues \<Rightarrow>
             Inr (issues,
                  (snd st)\<lparr>rv_status := Some (Str ''REJECT''),
                           rv_reason := Some ''Invalid HTML structure''\<rparr>))
      else Inr st)"

text \<open>
  The whole method, on the pair of the local \<open>issues\<close> and the verdict; the last line
  stores \<open>issues\<close> back under its key.
\<close>

definition add_deterministic_checks :: "policy \<Rightarrow> review \<Rightarrow> string \<Rightarrow> exn + review" where
  "add_deterministic_checks pol verdict draft =
     (case check_forbidden pol draft (get_issues verdict, verdict) of
        Inl e \<Rightarrow> Inl e
      | Inr st1 \<Rightarrow>
          (case check_html draft st1 of
             Inl e \<Rightarrow> Inl e
           | Inr st2 \<Rightarrow>
               (case append_missing draft (fst st2)
                       (case required_sections pol of None \<Rightarrow> [] | Some xs \<Rightarrow> xs) of
                  Inl e \<Rightarrow> Inl e
                | Inr issues \<Rightarrow>
                    Inr ((snd st2)\<lparr>rv_issues :=
                            (case issues of None \<Rightarrow> NotAList | Some xs \<Rightarrow> Issues xs)\<rparr>))))"

subsection \<open>\<open>EditorAgent.run\<close>\<close>

text \<open>\<open>str(e)\<close>, as far as the model keeps it.\<close>

definition exn_text :: "exn \<Rightarrow> string" where
  "exn_text e =
     (case e of
        ValueError \<Rightarrow> ''ValueError''
      | KeyError k \<Rightarrow> k
      | GithubException st \<Rightarrow> ''GithubException''
      | ReError m \<Rightarrow> m
      | OtherException m \<Rightarrow> m)"

record draft_info =
  di_slug :: string
  di_path :: string

record editor_results =
  er_verdicts :: "review list"
  er_approved :: nat
  er_flagged :: nat
  er_rejected :: nat

text \<open>The entry the exception handler of the loop appends (lines 122-128).\<close>

definition record_error :: "editor_results \<Rightarrow> string \<Rightarrow> exn \<Rightarrow> editor_results" where
  "record_error res slug e =
     res\<lparr>er_verdicts := er_verdicts res @
           [\<lparr>rv_slug = Some slug, rv_status = Some (Str ''ERROR''), rv_reason = Some (exn_text e),
             rv_issues = NoIssues, rv_diff_summary = None, rv_change_percentage = None\<rparr>]\<rparr>"

text \<open>
  The entry \<open>{"slug": slug, "path": ..., **verdict}\<close>: a \<open>slug\<close> key of the reviewer's
  object replaces the draft's slug. The path is not modelled.
\<close>

definition entry_of :: "string \<Rightarrow> review \<Rightarrow> review" where
  "entry_of slug verdict =
     verdict\<lparr>rv_slug := Some (case rv_slug verdict of None \<Rightarrow> slug | Some s \<Rightarrow> s)\<rparr>"

text \<open>\<open>EditorAgent._find_project_context\<close>\<close>

definition find_project_context :: "project_data list option \<Rightarrow> string \<Rightarrow> project_data option" where
  "find_project_context context slug =
     (case context of None \<Rightarrow> None | Some projects \<Rightarrow> find (\<lambda>p. p_slug p = slug) projects)"

text \<open>The update of the three counters (lines 112-118).\<close>

definition count_status :: "status_value \<Rightarrow> editor_results \<Rightarrow> editor_results" where
  "count_status st res =
     (if st = Str ''APPROVE'' then res\<lparr>er_approved := er_approved res + 1\<rparr>
      else if st = Str ''FLAGGED'' then res\<lparr>er_flagged := er_flagged res + 1\<rparr>
      else res\<lparr>er_rejected := er_rejected res + 1\<rparr>)"

text \<open>
  The body of the loop of \<open>EditorAgent.run\<close> (lines 75-128) for one draft. \<open>drafts\<close> maps a
  path to the content of the file there; \<open>review\<close> is what \<open>_review_draft\<close> returned or
  raised for this draft; \<open>saved\<close> is what \<open>_save_verdict\<close> raised, if anything. A draft that
  is missing or empty, and a draft with no project context, is passed over without an
  entry. Inside the \<open>try\<close>, everything that raises leads to the handler, which appends an
  ERROR entry: the review itself, the checks (a value that is not an object has no
  \<open>get\<close>), writing the verdict file, and, after the verdict's entry was appended and
  counted, \<open>verdict["status"]\<close> on a verdict without a status, \<open>icons.get(status, "?")\<close> on
  a status that cannot be hashed and \<open>verdict['reason']\<close> on a verdict without a reason.
\<close>

definition editor_step ::
  "policy \<Rightarrow> project_data list option \<Rightarrow> (string \<rightharpoonup> string) \<Rightarrow> draft_info
     \<Rightarrow> exn + json_value \<Rightarrow> exn option \<Rightarrow> editor_results \<Rightarrow> editor_results" where
  "editor_step pol context drafts info review saved res =
     (let slug = di_slug info in
      case drafts (di_path info) of
        None \<Rightarrow> res
      | Some draft_content \<Rightarrow>
          if draft_content = [] then res
          else
            (case find_project_context context slug of
               None \<Rightarrow> res
             | Some project_context \<Rightarrow>
                 (case review of
                    Inl e \<Rightarrow> record_error res slug e
                  | Inr JOther \<Rightarrow> record_error res slug attribute_error
                  | Inr (JObject verdict0) \<Rightarrow>
                      (case add_deterministic_checks pol verdict0 draft_content of
                         Inl e \<Rightarrow> record_error res slug e
                       | Inr verdict \<Rightarrow>
                           (case saved of
                              Some e \<Rightarrow> record_error res slug e
                            | None \<Rightarrow>
                                (let res1 = res\<lparr>er_verdicts :=
                                                   er_verdicts res @ [entry_of slug verdict]\<rparr>
                                 in case rv_status verdict of
                                      None \<Rightarrow> record_error res1 slug (key_error ''status'')
                                    | Some Unhashable \<Rightarrow>
                                        record_error (count_status Unhashable res1) slug type_error
                                    | Some (Str st) \<Rightarrow>
                                        (case rv_reason verdict of
                                           None \<Rightarrow>
                                             record_error (count_status (Str st) res1) slug
                                               (key_error ''reason'')
                                         | Some reason \<Rightarrow> count_status (Str st) res1)))))))"

text \<open>The loop: each draft of writer_results.json with the reviewer's answer for it.\<close>

definition editor_loop ::
  "policy \<Rightarrow> project_data list option \<Rightarrow> (string \<rightharpoonup> string)
     \<Rightarrow> (draft_info \<times> (exn + json_value) \<times> exn option) list \<Rightarrow> editor_results
     \<Rightarrow> editor_results" where
  "editor_loop pol context drafts work res =
     fold (\<lambda>(info, review, saved). editor_step pol context drafts info review saved) work res"

text \<open>
  The reviews for which an invalid draft ends as REJECT: the reviewer returned an
  object, its issues are absent or a list, the policy has its list of forbidden words,
  the object has a status or no forbidden word is found in the draft, and the verdict
  file was written.
\<close>

definition usable_review :: "policy \<Rightarrow> string \<Rightarrow> exn + json_value \<Rightarrow> exn option \<Rightarrow> bool" where
  "usable_review pol draft review saved =
     (case review of
        Inl e \<Rightarrow> False
      | Inr JOther \<Rightarrow> False
      | Inr (JObject verdict) \<Rightarrow>
          rv_issues verdict \<noteq> NotAList
          \<and> (case forbidden_words pol of
                None \<Rightarrow> False
              | Some words \<Rightarrow> rv_status verdict \<noteq> None \<or> found_forbidden words draft = [])
          \<and> saved = None)"

text \<open>
  An approving answer, the same answer with \<open>"issues": null\<close>, a policy, a context and a
  draft with no body element.
\<close>

definition approve_review :: review where
  "approve_review =
     \<lparr>rv_slug = None, rv_status = Some (Str ''APPROVE''), rv_reason = Some ''Looks good'',
      rv_issues = Issues [], rv_diff_summary = Some ''Minor edits'',
      rv_change_percentage = Some 5\<rparr>"

definition null_issues_review :: review where
  "null_issues_review = approve_review\<lparr>rv_issues := NotAList\<rparr>"

definition policy0 :: policy where
  "policy0 =
     \<lparr>forbidden_words = Some [''revolutionary''], required_sections = Some [''summary'']\<rparr>"

definition demo_info :: draft_info where
  "demo_info = \<lparr>di_slug = ''demo'', di_path = ''drafts/demo.html''\<rparr>"

definition demo_context :: "project_data list option" where
  "demo_context =
     Some [\<lparr>p_slug = ''demo'', p_repo = ''o/demo'', p_exists = True, p_locked = False,
            p_status = ''update'', p_change_score = 130, p_change_reason = ''release_tag'',
            p_current_html = Some ''<html><body>old</body></html>'', p_manual_sections = []\<rparr>]"

definition no_body_draft :: string where
  "no_body_draft = ''<html><p>revolutionary</p></html>''"

definition demo_drafts :: "string \<rightharpoonup> string" where
  "demo_drafts = [''drafts/demo.html'' \<mapsto> no_body_draft]"

definition empty_drafts :: "string \<rightharpoonup> string" where
  "empty_drafts = [''drafts/demo.html'' \<mapsto> []]"

definition no_verdicts :: editor_results where
  "no_verdicts = \<lparr>er_verdicts = [], er_approved = 0, er_flagged = 0, er_rejected = 0\<rparr>"

subsection \<open>An entry of editor_results.json as the Deployer reads it\<close>

text \<open>
  The keys of an entry that the Deployer reads. A key the entry may lack is an option;
  \<open>None\<close> is the absent key.
\<close>

record verdict =
  v_slug :: string
  v_status :: "string option"
  v_reason :: "string option"
  v_issues :: "string list option"
  v_diff_summary :: "string option"
  v_change_percentage :: "int option"

definition approve_verdict :: verdict where
  "approve_verdict =
     \<lparr>v_slug = [], v_status = Some ''APPROVE'', v_reason = Some ''Looks good'', v_issues = Some [],
      v_diff_summary = Some ''Minor edits'', v_change_percentage = Some 5\<rparr>"

section \<open>Phase 4: Deployer (scripts/deployer.py)\<close>

subsection \<open>The remote repository\<close>

text \<open>
  The target repository is reached through PyGithub, which is not part of this code. The
  model takes its operations as parameters: a state \<open>'w\<close> of the remote side and, for each
  operation the Deployer calls, a function from the state to a result or an exception,
  and the state after the call. A theorem that holds for every such record of operations
  holds whatever the remote side does.
\<close>

type_synonym ('w, 'a) io = "'w \<Rightarrow> (exn + 'a) \<times> 'w"

text \<open>
  A \<open>ContentFile\<close>: its blob sha and its content decoded as UTF-8, \<open>None\<close> when the bytes do
  not decode (\<open>decoded_content.decode('utf-8')\<close> raises).
\<close>

record content_file =
  cf_sha :: string
  cf_decoded :: "string option"

record 'w repo_api =
  get_contents :: "string \<Rightarrow> string \<Rightarrow> ('w, content_file) io"
  get_git_ref :: "string \<Rightarrow> ('w, string) io"
  create_git_ref :: "string \<Rightarrow> string \<Rightarrow> ('w, unit) io"
  delete_git_ref :: "string \<Rightarrow> ('w, unit) io"
  update_file :: "string \<Rightarrow> string \<Rightarrow> string \<Rightarrow> string \<Rightarrow> string \<Rightarrow> ('w, unit) io"
  create_file :: "string \<Rightarrow> string \<Rightarrow> string \<Rightarrow> string \<Rightarrow> ('w, unit) io"
  create_pull :: "string \<Rightarrow> string \<Rightarrow> string \<Rightarrow> string \<Rightarrow> ('w, string) io"
  add_to_labels :: "string \<Rightarrow> string list \<Rightarrow> ('w, unit) io"

text \<open>
  The arguments are, in order: \<open>get_contents path ref\<close>; \<open>get_git_ref ref\<close>, returning
  the sha of the ref's object; \<open>create_git_ref ref sha\<close>; \<open>delete_git_ref ref\<close> (the
  \<open>delete\<close> of the ref \<open>get_git_ref\<close> returned); \<open>update_file path message content sha
  branch\<close>; \<open>create_file path message content branch\<close>; \<open>create_pull title body head
  base\<close>, returning the pull request's URL; \<open>add_to_labels url labels\<close>.
\<close>

subsection \<open>The Deployer\<close>

record deployer =
  mode :: string
  force_pr_on_high_risk :: bool
  high_risk_threshold :: int
  target_branch :: string
  output_dir :: string
  deployer_dry_run :: bool

record freshness =
  stale :: bool
  expected_sha :: "string option"
  current_sha :: "string option"

text \<open>Python's truth value of an optional string: \<open>None\<close> and \<open>""\<close> are false.\<close>

definition truthy :: "string option \<Rightarrow> bool" where
  "truthy x = (case x of None \<Rightarrow> False | Some s \<Rightarrow> s \<noteq> [])"

text \<open>
  \<open>Deployer._check_freshness\<close>. \<open>context\<close> is the project list of context.json, \<open>None\<close>
  when the file is missing; \<open>sha1\<close> stands for \<open>hashlib.sha1(s.encode()).hexdigest()\<close>. The
  handler catches GithubException only: any other exception leaves the method.
\<close>

definition check_freshness ::
  "'w repo_api \<Rightarrow> deployer \<Rightarrow> (string \<Rightarrow> string) \<Rightarrow> project_data list option \<Rightarrow> string
     \<Rightarrow> ('w, freshness) io" where
  "check_freshness api self sha1 context slug w =
     (let result = \<lparr>stale = False, expected_sha = None, current_sha = None\<rparr> in
      case context of
        None \<Rightarrow> (Inr result, w)
      | Some projects \<Rightarrow>
          (case find (\<lambda>p. p_slug p = slug) projects of
             None \<Rightarrow> (Inr result, w)
           | Some project \<Rightarrow>
               if \<not> p_exists project then (Inr result, w)
               else
                 (let result1 =
                        (if truthy (p_current_html project)
                         then result\<lparr>expected_sha := map_option sha1 (p_current_html project)\<rparr>
                         else result);
                      file_path = output_dir self @ slug @ ''.html''
                  in case get_contents api file_path (target_branch self) w of
                       (Inr current_file, w') \<Rightarrow>
                         (let result2 = result1\<lparr>current_sha := Some (cf_sha current_file)\<rparr> in
                          case cf_decoded current_file of
                            None \<Rightarrow> (Inl (OtherException ''UnicodeDecodeError''), w')
                          | Some current_content \<Rightarrow>
                              if truthy (expected_sha result2)
                                 \<and> Some (sha1 current_content) \<noteq> expected_sha result2
                              then (Inr (result2\<lparr>stale := True\<rparr>), w')
                              else (Inr result2, w'))
                     | (Inl (GithubException st), w') \<Rightarrow>
                         if st = 404 then
                           (if p_exists project then (Inr (result1\<lparr>stale := True\<rparr>), w')
                            else (Inr result1, w'))
                         else (Inr result1, w')
                     | (Inl e, w') \<Rightarrow> (Inl e, w'))))"

text \<open>\<open>Deployer._should_create_pr\<close>; percentages are modelled as integers.\<close>

definition should_create_pr :: "deployer \<Rightarrow> string \<Rightarrow> verdict \<Rightarrow> bool" where
  "should_create_pr self st verdict =
     (if mode self = ''manual'' then True
      else if st = ''FLAGGED'' then True
      else if force_pr_on_high_risk self
              \<and> (case v_change_percentage verdict of None \<Rightarrow> 0 | Some p \<Rightarrow> p)
                   > high_risk_threshold self
        then True
      else False)"

text \<open>The robot emoji of the pull request's title and heading, as its four UTF-8 bytes.\<close>

definition robot :: string where
  "robot = [CHR 0xF0, CHR 0x9F, CHR 0xA4, CHR 0x96]"

text \<open>\<open>Deployer._build_pr_body\<close>\<close>

definition build_pr_body :: "string \<Rightarrow> verdict \<Rightarrow> string" where
  "build_pr_body slug verdict =
     (let nl = [CHR 0x0A]; dq = [CHR 0x22]; bt = [CHR 0x60];
          st = (case v_status verdict of None \<Rightarrow> ''UNKNOWN'' | Some s \<Rightarrow> s);
          reason = (case v_reason verdict of None \<Rightarrow> ''N/A'' | Some s \<Rightarrow> s);
          diff_summary = (case v_diff_summary verdict of None \<Rightarrow> ''N/A'' | Some s \<Rightarrow> s);
          issues = (case v_issues verdict of None \<Rightarrow> [] | Some xs \<Rightarrow> xs)
      in ''## '' @ robot @ '' AI-Generated Update: '' @ slug @ nl @ nl
         @ ''**Editor Verdict**: '' @ st @ nl
         @ ''**Reason**: '' @ reason @ nl @ nl
         @ ''### Diff Summary'' @ nl @ diff_summary @ nl @ nl
         @ (if issues \<noteq> []
            then ''### Issues Noted'' @ nl @ concat (map (\<lambda>i. ''- '' @ i @ nl) issues) @ nl
            else [])
         @ ''---'' @ nl @ nl
         @ ''**Action Required**: Review the '' @ dq @ ''Files Changed'' @ dq
         @ '' tab and merge to deploy.'' @ nl @ nl
         @ ''> This PR was automatically generated by ''
         @ ''[SiteOps](https://github.com/your-username/siteops).'' @ nl
         @ ''> To disable automation, set '' @ bt @ ''workflow.mode: '' @ dq @ ''manual'' @ dq @ bt
         @ '' in settings.yaml.'' @ nl)"

text \<open>
  Lines 247-266 of \<open>_create_pull_request\<close>: create the branch; on status 422 delete the
  existing ref, ignoring every failure of that, and create it again.
\<close>

definition create_branch :: "'w repo_api \<Rightarrow> string \<Rightarrow> string \<Rightarrow> ('w, unit) io" where
  "create_branch api branch_name base_sha w =
     (case create_git_ref api (''refs/heads/'' @ branch_name) base_sha w of
        (Inr u, w1) \<Rightarrow> (Inr (), w1)
      | (Inl (GithubException st), w1) \<Rightarrow>
          if st = 422 then
            (let w3 = (case get_git_ref api (''heads/'' @ branch_name) w1 of
                         (Inl e, w2) \<Rightarrow> w2
                       | (Inr existing_ref, w2) \<Rightarrow>
                           snd (delete_git_ref api (''heads/'' @ branch_name) w2))
             in create_git_ref api (''refs/heads/'' @ branch_name) base_sha w3)
          else (Inl (GithubException st), w1)
      | (Inl e, w1) \<Rightarrow> (Inl e, w1))"

text \<open>
  The \<open>try\<close> of lines 271-291 and of lines 351-371: update the file when it exists; on a
  404 of either call inside the \<open>try\<close>, create it.
\<close>

definition put_file :: "'w repo_api \<Rightarrow> string \<Rightarrow> string \<Rightarrow> string \<Rightarrow> string \<Rightarrow> ('w, unit) io" where
  "put_file api file_path slug content branch w =
     (let on_error = (\<lambda>e w'.
            case e of
              GithubException st \<Rightarrow>
                if st = 404
                then create_file api file_path (''Add '' @ slug @ '' project page [SiteOps]'')
                       content branch w'
                else (Inl e, w')
            | _ \<Rightarrow> (Inl e, w'))
      in case get_contents api file_path branch w of
           (Inr existing, w1) \<Rightarrow>
             (case update_file api file_path (''Update '' @ slug @ '' project page [SiteOps]'')
                     content (cf_sha existing) branch w1 of
                (Inr u, w2) \<Rightarrow> (Inr (), w2)
              | (Inl e, w2) \<Rightarrow> on_error e w2)
         | (Inl e, w1) \<Rightarrow> on_error e w1)"

text \<open>
  \<open>Deployer._create_pull_request\<close>; \<open>today\<close> is the date string of \<open>datetime.utcnow()\<close>.
\<close>

definition create_pull_request ::
  "'w repo_api \<Rightarrow> deployer \<Rightarrow> string \<Rightarrow> string \<Rightarrow> string \<Rightarrow> verdict \<Rightarrow> ('w, string) io" where
  "create_pull_request api self today slug content verdict w =
     (if deployer_dry_run self then (Inr ''https://github.com/dry-run/pr'', w)
      else
        (let branch_name = ''siteops/update-'' @ slug @ ''-'' @ today in
         case get_git_ref api (''heads/'' @ target_branch self) w of
           (Inl e, w1) \<Rightarrow> (Inl e, w1)
         | (Inr base_sha, w1) \<Rightarrow>
             (case create_branch api branch_name base_sha w1 of
                (Inl e, w2) \<Rightarrow> (Inl e, w2)
              | (Inr u, w2) \<Rightarrow>
                  (case put_file api (output_dir self @ slug @ ''.html'') slug content
                          branch_name w2 of
                     (Inl e, w3) \<Rightarrow> (Inl e, w3)
                   | (Inr u', w3) \<Rightarrow>
                       (case create_pull api
                               (robot @ '' SiteOps: Update '' @ slug)
                               (build_pr_body slug verdict) branch_name (target_branch self) w3 of
                          (Inl e, w4) \<Rightarrow> (Inl e, w4)
                        | (Inr url, w4) \<Rightarrow>
                            (Inr url, snd (add_to_labels api url [''automated'', ''siteops''] w4)))))))"

text \<open>\<open>Deployer._direct_push\<close>\<close>

definition direct_push :: "'w repo_api \<Rightarrow> deployer \<Rightarrow> string \<Rightarrow> string \<Rightarrow> ('w, unit) io" where
  "direct_push api self slug content w =
     (if deployer_dry_run self then (Inr (), w)
      else put_file api (output_dir self @ slug @ ''.html'') slug content (target_branch self) w)"

subsection \<open>\<open>Deployer.run\<close>\<close>

text \<open>
  What the loop body decides for one verdict before it deploys anything (lines 76-111):
  skip with a reason, the error of a missing draft file, a pull request, or a direct
  write to the target branch.
\<close>

datatype decision = Skip string | DraftNotFound | PullRequest | DirectWrite

definition verdict_status :: "verdict \<Rightarrow> string" where
  "verdict_status verdict = (case v_status verdict of None \<Rightarrow> ''ERROR'' | Some s \<Rightarrow> s)"

text \<open>
  Lines 76-111. \<open>drafts\<close> maps a slug to the content of drafts/slug.html, when the file
  exists. The flag \<open>_conflict_detected\<close> the code sets on the verdict is never read and is
  left out.
\<close>

definition gatekeeper ::
  "'w repo_api \<Rightarrow> deployer \<Rightarrow> (string \<Rightarrow> string) \<Rightarrow> project_data list option
     \<Rightarrow> (string \<rightharpoonup> string) \<Rightarrow> verdict \<Rightarrow> ('w, decision) io" where
  "gatekeeper api self sha1 context drafts verdict w =
     (let slug = v_slug verdict; st = verdict_status verdict in
      if st = ''REJECT'' \<or> st = ''ERROR'' then
        (Inr (Skip (case v_reason verdict of None \<Rightarrow> ''Rejected by Editor'' | Some r \<Rightarrow> r)), w)
      else
        (case drafts slug of
           None \<Rightarrow> (Inr DraftNotFound, w)
         | Some draft_content \<Rightarrow>
             (case check_freshness api self sha1 context slug w of
                (Inl e, w') \<Rightarrow> (Inl e, w')
              | (Inr fresh, w') \<Rightarrow>
                  (let should_pr = (if stale fresh then True
                                    else should_create_pr self st verdict)
                   in (Inr (if should_pr then PullRequest else DirectWrite), w')))))"

record pr_entry =
  pr_slug :: string
  pr_url :: string
  pr_reason :: string

record results =
  pushed :: "string list"
  prs :: "pr_entry list"
  skipped :: "(string \<times> string) list"
  errors :: "(string \<times> string) list"

text \<open>
  The whole loop body (lines 76-129): the decision, then the deployment inside the \<open>try\<close>
  whose handler records every exception as an error of the draft. An exception of the
  freshness check is outside that \<open>try\<close> and ends the run. \<open>draft_content\<close> is the file
  read at lines 97-98; the gatekeeper decides for a pull request or a direct write only
  when the file exists.
\<close>

definition deploy_verdict ::
  "'w repo_api \<Rightarrow> deployer \<Rightarrow> (string \<Rightarrow> string) \<Rightarrow> string \<Rightarrow> project_data list option
     \<Rightarrow> (string \<rightharpoonup> string) \<Rightarrow> verdict \<Rightarrow> results \<Rightarrow> ('w, results) io" where
  "deploy_verdict api self sha1 today context drafts verdict res w =
     (let slug = v_slug verdict; st = verdict_status verdict;
          draft_content = (case drafts slug of None \<Rightarrow> [] | Some c \<Rightarrow> c)
      in case gatekeeper api self sha1 context drafts verdict w of
        (Inl e, w') \<Rightarrow> (Inl e, w')
      | (Inr (Skip reason), w') \<Rightarrow> (Inr (res\<lparr>skipped := skipped res @ [(slug, reason)]\<rparr>), w')
      | (Inr DraftNotFound, w') \<Rightarrow>
          (Inr (res\<lparr>errors := errors res @ [(slug, ''Draft not found'')]\<rparr>), w')
      | (Inr PullRequest, w') \<Rightarrow>
          (case create_pull_request api self today slug draft_content verdict w' of
             (Inr url, w'') \<Rightarrow>
               (Inr (res\<lparr>prs := prs res @
                        [\<lparr>pr_slug = slug, pr_url = url,
                          pr_reason = (if mode self = ''manual'' then ''manual mode'' else st)\<rparr>]\<rparr>),
                w'')
           | (Inl e, w'') \<Rightarrow> (Inr (res\<lparr>errors := errors res @ [(slug, exn_text e)]\<rparr>), w''))
      | (Inr DirectWrite, w') \<Rightarrow>
          (case direct_push api self slug draft_content w' of
             (Inr u, w'') \<Rightarrow> (Inr (res\<lparr>pushed := pushed res @ [slug]\<rparr>), w'')
           | (Inl e, w'') \<Rightarrow> (Inr (res\<lparr>errors := errors res @ [(slug, exn_text e)]\<rparr>), w'')))"

text \<open>The loop over the verdicts of editor_results.json.\<close>

fun deploy_loop ::
  "'w repo_api \<Rightarrow> deployer \<Rightarrow> (string \<Rightarrow> string) \<Rightarrow> string \<Rightarrow> project_data list option
     \<Rightarrow> (string \<rightharpoonup> string) \<Rightarrow> verdict list \<Rightarrow> results \<Rightarrow> ('w, results) io" where
  "deploy_loop api self sha1 today context drafts [] res w = (Inr res, w)"
| "deploy_loop api self sha1 today context drafts (v # vs) res w =
     (case deploy_verdict api self sha1 today context drafts v res w of
        (Inl e, w') \<Rightarrow> (Inl e, w')
      | (Inr res', w') \<Rightarrow> deploy_loop api self sha1 today context drafts vs res' w')"

text \<open>
  \<open>Deployer.run\<close>: \<open>editor_results\<close> is the verdict list of editor_results.json, \<open>None\<close>
  when the file is missing.
\<close>

definition deployer_run ::
  "'w repo_api \<Rightarrow> deployer \<Rightarrow> (string \<Rightarrow> string) \<Rightarrow> string \<Rightarrow> project_data list option
     \<Rightarrow> (string \<rightharpoonup> string) \<Rightarrow> verdict list option \<Rightarrow> ('w, results) io" where
  "deployer_run api self sha1 today context drafts editor_results w =
     (case editor_results of
        None \<Rightarrow> (Inr \<lparr>pushed = [], prs = [], skipped = [], errors = []\<rparr>, w)
      | Some verdicts \<Rightarrow>
          deploy_loop api self sha1 today context drafts verdicts
            \<lparr>pushed = [], prs = [], skipped = [], errors = []\<rparr> w)"

subsection \<open>A remote repository for the examples\<close>

text \<open>
  A remote side whose state is the number of calls made so far. Reading a file returns
  \<open>file\<close>; every other operation succeeds.
\<close>

definition static_api :: "exn + content_file \<Rightarrow> nat repo_api" where
  "static_api file =
     \<lparr>get_contents = (\<lambda>path ref w. (file, Suc w)),
      get_git_ref = (\<lambda>ref w. (Inr ''base-sha'', Suc w)),
      create_git_ref = (\<lambda>ref sha w. (Inr (), Suc w)),
      delete_git_ref = (\<lambda>ref w. (Inr (), Suc w)),
      update_file = (\<lambda>path message content sha branch w. (Inr (), Suc w)),
      create_file = (\<lambda>path message content branch w. (Inr (), Suc w)),
      create_pull = (\<lambda>title body head base w. (Inr ''https://github.com/o/site/pull/1'', Suc w)),
      add_to_labels = (\<lambda>url labels w. (Inr (), Suc w))\<rparr>"

text \<open>A stand-in for the SHA-1 digest in the examples: injective and never empty.\<close>

definition toy_sha1 :: "string \<Rightarrow> string" where
  "toy_sha1 s = ''sha1:'' @ s"

definition auto_deployer :: deployer where
  "auto_deployer =
     \<lparr>mode = ''auto'', force_pr_on_high_risk = True, high_risk_threshold = 30,
      target_branch = ''main'', output_dir = ''projects/'', deployer_dry_run = False\<rparr>"

text \<open>A published page as the Collector recorded it, with the content it had then.\<close>

definition published :: "string \<Rightarrow> string option \<Rightarrow> project_data" where
  "published slug html =
     \<lparr>p_slug = slug, p_repo = ''o/'' @ slug, p_exists = True, p_locked = False,
      p_status = ''update'', p_change_score = 130, p_change_reason = ''release_tag'',
      p_current_html = html, p_manual_sections = []\<rparr>"

definition remote_file :: "string \<Rightarrow> exn + content_file" where
  "remote_file text = Inr \<lparr>cf_sha = ''blob'', cf_decoded = Some text\<rparr>"

definition approved :: "string \<Rightarrow> verdict" where
  "approved slug = approve_verdict\<lparr>v_slug := slug, v_change_percentage := Some 0\<rparr>"

definition rejected :: "string \<Rightarrow> verdict" where
  "rejected slug = approve_verdict\<lparr>v_slug := slug, v_status := Some ''REJECT'',
                     v_reason := Some ''Invalid HTML structure''\<rparr>"

definition no_results :: results where
  "no_results = \<lparr>pushed = [], prs = [], skipped = [], errors = []\<rparr>"

subsection \<open>Specification-level notions used to state the freshness check's properties\<close>

text \<open>
  Staleness as the specification words it, for a project whose snapshot records an
  existing artifact with content \<open>snapshot_content\<close>: stale exactly when the remote artifact
  is absent (\<open>None\<close>) or its content fingerprint differs from the snapshot's.
\<close>

definition stale_as_claimed :: "(string \<Rightarrow> string) \<Rightarrow> string \<Rightarrow> string option \<Rightarrow> bool" where
  "stale_as_claimed sha1 snapshot_content remote =
     (case remote of None \<Rightarrow> True | Some current \<Rightarrow> sha1 current \<noteq> sha1 snapshot_content)"

definition not_stale :: freshness where
  "not_stale = \<lparr>stale = False, expected_sha = None, current_sha = None\<rparr>"

section \<open>Manual sections (scripts/utils/github_client.py, scripts/writer.py)\<close>

subsection \<open>The delimiters\<close>

definition begin_prefix :: string where
  "begin_prefix = ''<!-- MANUAL:''"

definition end_prefix :: string where
  "end_prefix = ''<!-- /MANUAL:''"

definition comment_close :: string where
  "comment_close = '' -->''"

definition begin_marker :: "string \<Rightarrow> string" where
  "begin_marker name = begin_prefix @ name @ comment_close"

definition end_marker :: "string \<Rightarrow> string" where
  "end_marker name = end_prefix @ name @ comment_close"

text \<open>The class \<open>\w\<close> on ASCII text: letters, digits and the underscore.\<close>

definition word_char :: "char \<Rightarrow> bool" where
  "word_char c = (is_upper c \<or> is_lower c \<or> is_digit c \<or> c = CHR ''_'')"

subsection \<open>Matching\<close>

text \<open>\<open>strip_prefix p s\<close> is the rest of \<open>s\<close> after its prefix \<open>p\<close>, when \<open>s\<close> starts with \<open>p\<close>.\<close>

fun strip_prefix :: "string \<Rightarrow> string \<Rightarrow> string option" where
  "strip_prefix [] s = Some s"
| "strip_prefix (p # ps) [] = None"
| "strip_prefix (p # ps) (c # cs) = (if p = c then strip_prefix ps cs else None)"

text \<open>
  The lazy \<open>.*?\<close> followed by a literal \<open>pat\<close>, with DOTALL: the text before the first
  occurrence of \<open>pat\<close> and the text after it.
\<close>

fun split_at_first :: "string \<Rightarrow> string \<Rightarrow> (string \<times> string) option" where
  "split_at_first pat [] =
     (case strip_prefix pat [] of Some rest \<Rightarrow> Some ([], rest) | None \<Rightarrow> None)"
| "split_at_first pat (c # cs) =
     (case strip_prefix pat (c # cs) of
        Some rest \<Rightarrow> Some ([], rest)
      | None \<Rightarrow>
          (case split_at_first pat cs of
             None \<Rightarrow> None
           | Some (before, rest) \<Rightarrow> Some (c # before, rest)))"

text \<open>
  The pattern \<open><!-- MANUAL:(\w+) -->\<close> at the start of \<open>s\<close>: the name and the rest. The
  greedy \<open>\w+\<close> takes every word character: a shorter name would have to be followed by
  a space, and is followed by a word character.
\<close>

definition match_begin :: "string \<Rightarrow> (string \<times> string) option" where
  "match_begin s =
     (case strip_prefix begin_prefix s of
        None \<Rightarrow> None
      | Some s1 \<Rightarrow>
          if takeWhile word_char s1 = [] then None
          else (case strip_prefix comment_close (dropWhile word_char s1) of
                  None \<Rightarrow> None
                | Some s2 \<Rightarrow> Some (takeWhile word_char s1, s2)))"

text \<open>
  The pattern of \<open>_extract_manual_sections\<close>,
  \<open>(<!-- MANUAL:(\w+) -->.*?<!-- /MANUAL:\2 -->)\<close>, at the start of \<open>s\<close>: the matched text
  and the rest.
\<close>

definition match_section :: "string \<Rightarrow> (string \<times> string) option" where
  "match_section s =
     (case match_begin s of
        None \<Rightarrow> None
      | Some (name, s2) \<Rightarrow>
          (case split_at_first (end_marker name) s2 of
             None \<Rightarrow> None
           | Some (body, rest) \<Rightarrow> Some (begin_marker name @ body @ end_marker name, rest)))"

text \<open>
  The placeholder pattern of \<open>_inject_manual_sections\<close> for one name,
  \<open><!-- MANUAL:name -->.*?<!-- /MANUAL:name -->\<close>, at the start of \<open>s\<close>: the matched text
  and the rest. A name is made of word characters, which stand for themselves in a
  pattern.
\<close>

definition match_placeholder :: "string \<Rightarrow> string \<Rightarrow> (string \<times> string) option" where
  "match_placeholder name s =
     (case strip_prefix (begin_marker name) s of
        None \<Rightarrow> None
      | Some s1 \<Rightarrow>
          (case split_at_first (end_marker name) s1 of
             None \<Rightarrow> None
           | Some (body, rest) \<Rightarrow> Some (begin_marker name @ body @ end_marker name, rest)))"

subsection \<open>Extraction: \<open>BioSiteClient._extract_manual_sections\<close>\<close>

text \<open>A match is a non-empty prefix of the text, which makes the scans below terminate.\<close>

lemma strip_prefix_Some: "strip_prefix p s = Some r \<longleftrightarrow> s = p @ r"
  by (induction p s rule: strip_prefix.induct) auto

lemma split_at_first_Some: "split_at_first pat s = Some (b, r) \<Longrightarrow> s = b @ pat @ r"
proof (induction s arbitrary: b)
  case Nil
  then show ?case by (auto simp: strip_prefix_Some split: option.splits)
next
  case (Cons c cs)
  then show ?case
    by (auto simp: strip_prefix_Some split: option.splits)
qed

lemma match_begin_Some:
  "match_begin s = Some (name, r) \<Longrightarrow> s = begin_marker name @ r \<and> name \<noteq> []"
proof -
  assume a: "match_begin s = Some (name, r)"
  then obtain s1 where s1: "s = begin_prefix @ s1" "takeWhile word_char s1 = name" "name \<noteq> []"
    "dropWhile word_char s1 = comment_close @ r"
    by (auto simp: match_begin_def strip_prefix_Some split: option.splits if_splits)
  have "s1 = takeWhile word_char s1 @ dropWhile word_char s1" by simp
  with s1 show ?thesis by (simp add: begin_marker_def)
qed

lemma match_section_Some:
  "match_section s = Some (m, r) \<Longrightarrow> s = m @ r \<and> m \<noteq> []"
  by (auto simp: match_section_def begin_marker_def begin_prefix_def
      dest!: match_begin_Some split_at_first_Some split: option.splits)

lemma match_placeholder_Some:
  "match_placeholder name s = Some (m, r) \<Longrightarrow> s = m @ r \<and> m \<noteq> []"
  by (auto simp: match_placeholder_def strip_prefix_Some begin_marker_def begin_prefix_def
      dest!: split_at_first_Some split: option.splits)

text \<open>
  \<open>re.findall(pattern, html, re.DOTALL)\<close>, keeping the first group (the whole match) of
  each result: the matches from left to right, the scan resuming after each match.
\<close>

function extract_manual_sections :: "string \<Rightarrow> string list" where
  "extract_manual_sections [] = []"
| "extract_manual_sections (c # cs) =
     (case match_section (c # cs) of
        Some (m, rest) \<Rightarrow> m # extract_manual_sections rest
      | None \<Rightarrow> extract_manual_sections cs)"
  by pat_completeness auto
termination
proof (relation "measure length")
  fix c cs x2 x y
  assume "match_section (c # cs) = Some x2" "(x, y) = x2"
  then have "c # cs = x @ y \<and> x \<noteq> []"
    using match_section_Some [of "c # cs" x y] by simp
  then have "length y < length (c # cs)"
    by (metis length_append length_greater_0_conv less_add_same_cancel2)
  then show "(y, c # cs) \<in> measure length" by simp
qed simp_all


subsection \<open>Replacement templates of \<open>re.sub\<close>\<close>

text \<open>
  \<open>re.sub(pattern, repl, string)\<close> reads the string \<open>repl\<close> as a template: a backslash
  starts an escape. The template is parsed before the scan, also when nothing matches. A
  parsed template is a list of literal characters and references to the whole match
  (group 0); the placeholder pattern has no other group, so a reference to any other group
  raises. Names such as \<open>+0\<close>, which \<open>int\<close> accepts, are an error here as from Python
  3.12 on (group 0 before).
\<close>

datatype part = Lit char | WholeMatch

definition octal_digit :: "char \<Rightarrow> bool" where
  "octal_digit c = (48 \<le> (of_char c :: nat) \<and> (of_char c :: nat) \<le> 55)"

definition digit_value :: "char \<Rightarrow> nat" where
  "digit_value c = of_char c - 48"

definition is_identifier :: "string \<Rightarrow> bool" where
  "is_identifier name =
     (case name of [] \<Rightarrow> False
      | c # cs \<Rightarrow> (is_upper c \<or> is_lower c \<or> c = CHR ''_'') \<and> list_all word_char cs)"

definition control_escape :: "char \<Rightarrow> char option" where
  "control_escape d =
     (if d = CHR ''a'' then Some (CHR 0x07)
      else if d = CHR ''b'' then Some (CHR 0x08)
      else if d = CHR ''f'' then Some (CHR 0x0C)
      else if d = CHR ''n'' then Some (CHR 0x0A)
      else if d = CHR ''r'' then Some (CHR 0x0D)
      else if d = CHR ''t'' then Some (CHR 0x09)
      else if d = CHR ''v'' then Some (CHR 0x0B)
      else if d = CHR 0x5C then Some (CHR 0x5C)
      else None)"

definition group_reference :: "string \<Rightarrow> exn + part list \<times> string" where
  "group_reference ds =
     (case ds of
        [] \<Rightarrow> Inl (ReError ''missing <'')
      | b # ns \<Rightarrow>
          if b \<noteq> CHR ''<'' then Inl (ReError ''missing <'')
          else if dropWhile (\<lambda>x. x \<noteq> CHR ''>'') ns = []
            then Inl (ReError ''missing >, unterminated name'')
          else if takeWhile (\<lambda>x. x \<noteq> CHR ''>'') ns = []
            then Inl (ReError ''missing group name'')
          else if list_all is_digit (takeWhile (\<lambda>x. x \<noteq> CHR ''>'') ns) then
            (if list_all (\<lambda>x. x = CHR ''0'') (takeWhile (\<lambda>x. x \<noteq> CHR ''>'') ns)
             then Inr ([WholeMatch], tl (dropWhile (\<lambda>x. x \<noteq> CHR ''>'') ns))
             else Inl (ReError ''invalid group reference''))
          else if is_identifier (takeWhile (\<lambda>x. x \<noteq> CHR ''>'') ns)
            then Inl (OtherException ''IndexError: unknown group name'')
          else Inl (ReError ''bad character in group name''))"

definition octal_escape :: "string \<Rightarrow> part list \<times> string" where
  "octal_escape ds =
     (case ds of
        o1 # o2 # r \<Rightarrow>
          if octal_digit o1 \<and> octal_digit o2
            then ([Lit (char_of (8 * digit_value o1 + digit_value o2))], r)
          else if octal_digit o1 then ([Lit (char_of (digit_value o1))], o2 # r)
          else ([Lit (CHR 0x00)], ds)
      | [o1] \<Rightarrow>
          if octal_digit o1 then ([Lit (char_of (digit_value o1))], [])
          else ([Lit (CHR 0x00)], ds)
      | [] \<Rightarrow> ([Lit (CHR 0x00)], []))"

definition digit_escape :: "char \<Rightarrow> string \<Rightarrow> exn + part list \<times> string" where
  "digit_escape d ds =
     (case ds of
        o1 # o2 # r \<Rightarrow>
          if octal_digit d \<and> octal_digit o1 \<and> octal_digit o2 then
            (if 64 * digit_value d + 8 * digit_value o1 + digit_value o2 > 255
             then Inl (ReError ''octal escape value outside of range 0-0o377'')
             else Inr ([Lit (char_of (64 * digit_value d + 8 * digit_value o1 + digit_value o2))], r))
          else Inl (ReError ''invalid group reference'')
      | _ \<Rightarrow> Inl (ReError ''invalid group reference''))"

definition parse_escape :: "string \<Rightarrow> exn + part list \<times> string" where
  "parse_escape cs =
     (case cs of
        [] \<Rightarrow> Inl (ReError ''bad escape (end of pattern)'')
      | d # ds \<Rightarrow>
          if d = CHR ''g'' then group_reference ds
          else if d = CHR ''0'' then Inr (octal_escape ds)
          else if is_digit d then digit_escape d ds
          else (case control_escape d of
                  Some c \<Rightarrow> Inr ([Lit c], ds)
                | None \<Rightarrow>
                    if is_upper d \<or> is_lower d then Inl (ReError ''bad escape'')
                    else Inr ([Lit (CHR 0x5C), Lit d], ds)))"

lemma group_reference_shorter:
  "group_reference ds = Inr (ps, rest) \<Longrightarrow> length rest \<le> length ds"
proof -
  have dw: "length (tl (dropWhile P xs)) \<le> length xs" for P and xs :: string
    by (metis diff_le_self le_trans length_dropWhile_le length_tl)
  assume "group_reference ds = Inr (ps, rest)"
  then obtain b ns where "ds = b # ns" "rest = tl (dropWhile (\<lambda>x. x \<noteq> CHR ''>'') ns)"
    by (auto simp: group_reference_def split: list.splits if_splits)
  then show ?thesis
    using dw [of "\<lambda>x. x \<noteq> CHR ''>''" ns] by simp
qed

lemma octal_escape_shorter:
  "octal_escape ds = (ps, rest) \<Longrightarrow> length rest \<le> length ds"
  by (auto simp: octal_escape_def split: list.splits if_splits)

lemma digit_escape_shorter:
  "digit_escape d ds = Inr (ps, rest) \<Longrightarrow> length rest \<le> length ds"
  by (auto simp: digit_escape_def split: list.splits if_splits)

lemma parse_escape_shorter:
  "parse_escape cs = Inr (ps, rest) \<Longrightarrow> length rest < Suc (length cs)"
proof (cases cs)
  case Nil
  assume "parse_escape cs = Inr (ps, rest)"
  with Nil show ?thesis by (simp add: parse_escape_def)
next
  case (Cons d ds)
  assume "parse_escape cs = Inr (ps, rest)"
  with Cons have "length rest \<le> length ds"
    using group_reference_shorter [of ds ps rest] octal_escape_shorter [of ds ps rest]
      digit_escape_shorter [of d ds ps rest]
    by (auto simp: parse_escape_def split: if_splits option.splits)
  with Cons show ?thesis by simp
qed

function parse_template :: "string \<Rightarrow> exn + part list" where
  "parse_template [] = Inr []"
| "parse_template (c # cs) =
     (if c \<noteq> CHR 0x5C then
        (case parse_template cs of Inl e \<Rightarrow> Inl e | Inr ps \<Rightarrow> Inr (Lit c # ps))
      else
        (case parse_escape cs of
           Inl e \<Rightarrow> Inl e
         | Inr (ps, rest) \<Rightarrow>
             (case parse_template rest of Inl e \<Rightarrow> Inl e | Inr ps' \<Rightarrow> Inr (ps @ ps'))))"
  by pat_completeness auto
termination
proof (relation "measure length")
  fix c cs x2 x y
  assume "parse_escape cs = Inr x2" "(x, y) = x2"
  then have "length y < Suc (length cs)"
    using parse_escape_shorter [of cs x y] by simp
  then show "(y, c # cs) \<in> measure length" by simp
qed simp_all

text \<open>The text a parsed template stands for, at a match \<open>m\<close>.\<close>

definition expand :: "part list \<Rightarrow> string \<Rightarrow> string" where
  "expand parts m = concat (map (\<lambda>p. case p of Lit c \<Rightarrow> [c] | WholeMatch \<Rightarrow> m) parts)"

subsection \<open>Injection: \<open>WriterAgent._inject_manual_sections\<close>\<close>

text \<open>
  The scan of \<open>re.sub\<close> with the placeholder pattern of one name: every match, from left
  to right, is replaced by the expanded template.
\<close>

function sub_all :: "string \<Rightarrow> part list \<Rightarrow> string \<Rightarrow> string" where
  "sub_all name parts [] = []"
| "sub_all name parts (c # cs) =
     (case match_placeholder name (c # cs) of
        Some (m, rest) \<Rightarrow> expand parts m @ sub_all name parts rest
      | None \<Rightarrow> c # sub_all name parts cs)"
  by pat_completeness auto
termination
proof (relation "measure (\<lambda>(name, parts, s). length s)")
  fix name :: string and parts :: "part list" and c cs x2 x y
  assume "match_placeholder name (c # cs) = Some x2" "(x, y) = x2"
  then have "c # cs = x @ y \<and> x \<noteq> []"
    using match_placeholder_Some [of name "c # cs" x y] by simp
  then have "length y < length (c # cs)"
    by (metis length_append length_greater_0_conv less_add_same_cancel2)
  then show "((name, parts, y), (name, parts, c # cs)) \<in> measure (\<lambda>(name, parts, s). length s)"
    by simp
qed simp_all

definition re_sub :: "string \<Rightarrow> string \<Rightarrow> string \<Rightarrow> exn + string" where
  "re_sub name repl s =
     (case parse_template repl of Inl e \<Rightarrow> Inl e | Inr parts \<Rightarrow> Inr (sub_all name parts s))"

text \<open>\<open>re.search(r'<!-- MANUAL:(\w+) -->', section)\<close>: the name of the first begin marker.\<close>

fun search_name :: "string \<Rightarrow> string option" where
  "search_name [] = None"
| "search_name (c # cs) =
     (case match_begin (c # cs) of Some (name, rest) \<Rightarrow> Some name | None \<Rightarrow> search_name cs)"

text \<open>
  The loop over the preserved sections; an exception of \<open>re.sub\<close> leaves the method.
\<close>

fun inject_manual_sections :: "string \<Rightarrow> string list \<Rightarrow> exn + string" where
  "inject_manual_sections draft [] = Inr draft"
| "inject_manual_sections draft (section # sections) =
     (case search_name section of
        None \<Rightarrow> inject_manual_sections draft sections
      | Some section_name \<Rightarrow>
          (case re_sub section_name section draft of
             Inl e \<Rightarrow> Inl e
           | Inr draft' \<Rightarrow> inject_manual_sections draft' sections))"

subsection \<open>Specification-level notions used to state the round trip\<close>

text \<open>
  \<open>free p x y\<close>: in the text \<open>x @ y\<close>, no occurrence of \<open>p\<close> starts inside \<open>x\<close>.
\<close>

fun free :: "string \<Rightarrow> string \<Rightarrow> string \<Rightarrow> bool" where
  "free p [] y = True"
| "free p (c # x) y = (strip_prefix p (c # x @ y) = None \<and> free p x y)"

text \<open>
  A page read as a sequence of delimited sections with text around them: \<open>Sec t n b d\<close>
  is the text \<open>t\<close>, then the section named \<open>n\<close> with body \<open>b\<close>, then the rest \<open>d\<close>;
  \<open>End t\<close> is the closing text.
\<close>

datatype doc = End string | Sec string string string doc

text \<open>A delimited section as text: begin marker, body, end marker of the same name.\<close>

definition block :: "string \<Rightarrow> string \<Rightarrow> string" where
  "block name body = begin_marker name @ body @ end_marker name"

fun render :: "doc \<Rightarrow> string" where
  "render (End t) = t"
| "render (Sec t name body d) = t @ block name body @ render d"

text \<open>
  The page with every section whose name \<open>\<sigma>\<close> maps to a fragment replaced by that
  fragment, character for character, and everything else as it was.
\<close>

fun render_with :: "(string \<Rightarrow> string option) \<Rightarrow> doc \<Rightarrow> string" where
  "render_with \<sigma> (End t) = t"
| "render_with \<sigma> (Sec t name body d) =
     t @ (case \<sigma> name of Some fragment \<Rightarrow> fragment | None \<Rightarrow> block name body)
       @ render_with \<sigma> d"

text \<open>Text in which no begin marker starts.\<close>

definition plain :: "string \<Rightarrow> bool" where
  "plain t = (\<not> has_sub begin_prefix t)"

text \<open>A section name: one or more word characters.\<close>

definition valid_name :: "string \<Rightarrow> bool" where
  "valid_name name = (name \<noteq> [] \<and> list_all word_char name)"

text \<open>
  A section body: no begin marker starts in it and it does not contain the end marker of
  its own section.
\<close>

definition body_ok :: "string \<Rightarrow> string \<Rightarrow> bool" where
  "body_ok name body = (plain body \<and> \<not> has_sub (end_marker name) body)"

text \<open>A page in which every begin marker opens a section that is closed.\<close>

fun well_formed :: "doc \<Rightarrow> bool" where
  "well_formed (End t) = plain t"
| "well_formed (Sec t name body d) =
     (plain t \<and> valid_name name \<and> body_ok name body \<and> well_formed d)"

text \<open>The page after the sections named \<open>n\<close> received the body \<open>c\<close>.\<close>

fun subst_doc :: "string \<Rightarrow> string \<Rightarrow> doc \<Rightarrow> doc" where
  "subst_doc n c (End t) = End t"
| "subst_doc n c (Sec t name body d) = Sec t name (if name = n then c else body) (subst_doc n c d)"

text \<open>The page after every section named in \<open>frs\<close> received the body \<open>frs\<close> gives.\<close>

fun fill :: "(string \<times> string) list \<Rightarrow> doc \<Rightarrow> doc" where
  "fill frs (End t) = End t"
| "fill frs (Sec t name body d) =
     Sec t name (case map_of frs name of Some c \<Rightarrow> c | None \<Rightarrow> body) (fill frs d)"

text \<open>A name and a body that make a section with no nested marker and no backslash.\<close>

definition fragment_ok :: "string \<times> string \<Rightarrow> bool" where
  "fragment_ok nc = (valid_name (fst nc) \<and> body_ok (fst nc) (snd nc) \<and> CHR 0x5C \<notin> set (snd nc))"

text \<open>
  A preserved fragment with no backslash and with no begin marker but its own: no
  section is nested in it.
\<close>

definition simple_fragment :: "string \<Rightarrow> bool" where
  "simple_fragment f = (CHR 0x5C \<notin> set f \<and> \<not> has_sub begin_prefix (tl f))"

text \<open>The first fragment of the list whose name, as the injection reads it, is \<open>name\<close>.\<close>

definition fragment_named :: "string list \<Rightarrow> string \<Rightarrow> string option" where
  "fragment_named fragments name = find (\<lambda>f. search_name f = Some name) fragments"

text \<open>
  Example pages: one with two sections of the same name and a draft with a placeholder of
  that name; a published page with one manual section and a fresh draft with two
  placeholders.
\<close>

definition twice_n :: string where
  "twice_n = ''<!-- MANUAL:n -->1<!-- /MANUAL:n --><!-- MANUAL:n -->2<!-- /MANUAL:n -->''"

definition draft_n :: string where
  "draft_n = ''<!-- MANUAL:n -->new<!-- /MANUAL:n -->''"

definition page_bio :: string where
  "page_bio = ''<html><!-- MANUAL:bio -->Hand-written.<!-- /MANUAL:bio --></html>''"

definition draft_bio :: doc where
  "draft_bio = Sec ''<main>'' ''bio'' ''TODO'' (Sec ''<hr>'' ''links'' [] (End ''</main>''))"

section \<open>Properties of the Collector\<close>

text \<open>
  C6. For a project with no existing published record (\<open>is_new\<close>), the scorer returns
  status \<open>new\<close> with the score fixed at 999 and reason \<open>new_project\<close>, whatever the
  commits, the releases and the README flag are; in particular with no commit and no
  release at all.
\<close>

theorem new_project_always_new:
  "calculate_significance self commits releases readme_changed True =
     \<lparr>change_score = 999, status = ''new'', change_reason = ''new_project''\<rparr>
   \<and> calculate_significance self [] [] readme_changed True =
     \<lparr>change_score = 999, status = ''new'', change_reason = ''new_project''\<rparr>"
  by (simp add: calculate_significance_def)

lemma fst_score_commits:
  "fst (score_commits sc cs (s, rs)) = s + sum_list (map (commit_weight sc) cs)"
  by (induction cs arbitrary: s rs) (simp_all add: commit_weight_def)

lemma add_reason_keeps_head:
  "rs \<noteq> [] \<Longrightarrow> add_reason n rs \<noteq> [] \<and> hd (add_reason n rs) = hd rs"
  by (simp add: add_reason_def)

lemma snd_score_commits_head:
  "rs \<noteq> [] \<Longrightarrow>
     snd (score_commits sc cs (s, rs)) \<noteq> [] \<and> hd (snd (score_commits sc cs (s, rs))) = hd rs"
proof (induction cs arbitrary: s rs)
  case Nil
  then show ?case by simp
next
  case (Cons c cs)
  note keep = add_reason_keeps_head [OF Cons.prems]
  show ?case
    using Cons.IH [OF Cons.prems] Cons.IH [of "add_reason n rs" for n] keep
    by (simp del: score_commits.simps(2) add: score_commits.simps(2) [of sc c cs s rs])
qed

lemma snd_score_commits_first:
  "snd (score_commits sc cs (s, [])) =
     (case first_commit_reason cs of None \<Rightarrow> [] | Some r \<Rightarrow> snd (score_commits sc cs (s, [])))
   \<and> (\<forall>r. first_commit_reason cs = Some r \<longrightarrow> hd (snd (score_commits sc cs (s, []))) = r
            \<and> snd (score_commits sc cs (s, [])) \<noteq> [])"
proof (induction cs arbitrary: s)
  case Nil
  then show ?case by simp
next
  case (Cons c cs)
  have h: "\<And>n s'. snd (score_commits sc cs (s', [n])) \<noteq> [] \<and> hd (snd (score_commits sc cs (s', [n]))) = n"
    using snd_score_commits_head [of "[n]" for n] by simp
  show ?case
    using Cons.IH h
    by (auto simp: commit_reason_def add_reason_def split: option.splits)
qed

text \<open>
  C3, as stated, fails: with a fix commit listed before a feat commit (no release, README
  unchanged) the code reports \<open>fix_commit\<close>, the first scored commit of the list, where
  the fixed order feat, refactor, fix would report \<open>feature_commit\<close>.
\<close>

theorem reason_fixed_priority_counterexample:
  "change_reason (calculate_significance default_collector [fix_c, feat_c] [] False False)
     = ''fix_commit''
   \<and> reason_by_fixed_priority default_scoring [fix_c, feat_c] [] False = ''feature_commit''"
  by (simp add: calculate_significance_def reason_by_fixed_priority_def default_collector_def
      default_scoring_def fix_c_def feat_c_def commit_type_def add_reason_def)

text \<open>
  C3, amended. For an already-published project with at least one commit or release, the
  reason is \<open>release_tag\<close> if there is a release; otherwise \<open>readme_changed\<close> if the
  README flag is set; otherwise the token of the first commit, in the order of the input
  list, whose type is feat, refactor or fix; otherwise \<open>low_significance\<close>. The
  configured weights play no part in the choice.
\<close>

theorem reason_first_encountered:
  assumes "\<not> (commits = [] \<and> releases = [])"
  shows "change_reason (calculate_significance self commits releases readme_changed False) =
           (if releases \<noteq> [] then ''release_tag''
            else if readme_changed then ''readme_changed''
            else (case first_commit_reason commits of
                    Some r \<Rightarrow> r
                  | None \<Rightarrow> ''low_significance''))"
proof -
  let ?sc = "scoring_cfg self"
  have one: "\<And>s n. (case snd (score_commits ?sc commits (s, [n])) of
                        [] \<Rightarrow> ''low_significance'' | r # _ \<Rightarrow> r) = n"
  proof -
    fix s n
    have "snd (score_commits ?sc commits (s, [n])) \<noteq> []
          \<and> hd (snd (score_commits ?sc commits (s, [n]))) = n"
      using snd_score_commits_head [of "[n]" ?sc commits s] by simp
    then show "(case snd (score_commits ?sc commits (s, [n])) of
                  [] \<Rightarrow> ''low_significance'' | r # _ \<Rightarrow> r) = n"
      by (cases "snd (score_commits ?sc commits (s, [n]))") simp_all
  qed
  have two: "\<And>s n m. (case snd (score_commits ?sc commits (s, [n, m])) of
                        [] \<Rightarrow> ''low_significance'' | r # _ \<Rightarrow> r) = n"
  proof -
    fix s n m
    have "snd (score_commits ?sc commits (s, [n, m])) \<noteq> []
          \<and> hd (snd (score_commits ?sc commits (s, [n, m]))) = n"
      using snd_score_commits_head [of "[n, m]" ?sc commits s] by simp
    then show "(case snd (score_commits ?sc commits (s, [n, m])) of
                  [] \<Rightarrow> ''low_significance'' | r # _ \<Rightarrow> r) = n"
      by (cases "snd (score_commits ?sc commits (s, [n, m]))") simp_all
  qed
  have none: "\<And>s. (case snd (score_commits ?sc commits (s, [])) of
                        [] \<Rightarrow> ''low_significance'' | r # _ \<Rightarrow> r) =
                 (case first_commit_reason commits of
                    Some r \<Rightarrow> r | None \<Rightarrow> ''low_significance'')"
  proof -
    fix s
    show "(case snd (score_commits ?sc commits (s, [])) of
             [] \<Rightarrow> ''low_significance'' | r # _ \<Rightarrow> r) =
          (case first_commit_reason commits of
             Some r \<Rightarrow> r | None \<Rightarrow> ''low_significance'')"
    proof (cases "first_commit_reason commits")
      case None
      then have "snd (score_commits ?sc commits (s, [])) = []"
        using snd_score_commits_first [of ?sc commits s] by simp
      with None show ?thesis by simp
    next
      case (Some r)
      then have "hd (snd (score_commits ?sc commits (s, []))) = r
                 \<and> snd (score_commits ?sc commits (s, [])) \<noteq> []"
        using snd_score_commits_first [of ?sc commits s] by simp
      with Some show ?thesis
        by (cases "snd (score_commits ?sc commits (s, []))") simp_all
    qed
  qed
  show ?thesis
    using assms one two none
    by (simp add: calculate_significance_def Let_def)
qed

text \<open>Witness for C3: chore, fix, feat in this order give \<open>fix_commit\<close>.\<close>

theorem reason_first_encountered_witness:
  "\<not> ([chore_c, fix_c, feat_c] = [] \<and> ([]::release list) = [])
   \<and> change_reason (calculate_significance default_collector [chore_c, fix_c, feat_c] [] False False)
       = ''fix_commit''"
proof -
  have h: "\<not> ([chore_c, fix_c, feat_c] = [] \<and> ([]::release list) = [])" by simp
  show ?thesis
    using reason_first_encountered [OF h, of default_collector False]
    by (simp add: commit_reason_def commit_type_def chore_c_def fix_c_def feat_c_def)
qed

text \<open>
  C8, as stated, fails: nonnegative weights alone do not make the score monotone. With a
  no-activity score of 200 and the documented bonuses, a project with no commit and no
  release scores 200; with one release added it scores 100, and with one feat commit
  added it scores 30.
\<close>

theorem score_positive_sentinel_counterexample:
  "0 \<le> new_release (scoring_cfg positive_sentinel_collector)
   \<and> 0 \<le> readme_changed_w (scoring_cfg positive_sentinel_collector)
   \<and> 0 \<le> feat_commit (scoring_cfg positive_sentinel_collector)
   \<and> 0 \<le> refactor_commit (scoring_cfg positive_sentinel_collector)
   \<and> 0 \<le> fix_commit (scoring_cfg positive_sentinel_collector)
   \<and> 0 \<le> no_commits (scoring_cfg positive_sentinel_collector)
   \<and> change_score (calculate_significance positive_sentinel_collector [] [] False False) = 200
   \<and> change_score (calculate_significance positive_sentinel_collector [] [rel1] False False) = 100
   \<and> change_score (calculate_significance positive_sentinel_collector [feat_c] [] False False) = 30"
  by (simp add: calculate_significance_def positive_sentinel_collector_def default_scoring_def
      feat_c_def commit_type_def add_reason_def)

text \<open>
  C8, amended. For an already-published project, with the five bonus weights nonnegative
  and the no-activity score not positive: adding one release (anywhere in the release
  list), setting the README flag, or adding one commit of any type (anywhere in the commit
  list) never lowers the score.
\<close>

theorem score_monotone:
  assumes "0 \<le> new_release (scoring_cfg self)"
    and "0 \<le> readme_changed_w (scoring_cfg self)"
    and "0 \<le> feat_commit (scoring_cfg self)"
    and "0 \<le> refactor_commit (scoring_cfg self)"
    and "0 \<le> fix_commit (scoring_cfg self)"
    and "no_commits (scoring_cfg self) \<le> 0"
  shows "change_score (calculate_significance self commits (rs1 @ rs2) readme_changed False)
           \<le> change_score (calculate_significance self commits (rs1 @ [r] @ rs2) readme_changed False)
       \<and> change_score (calculate_significance self commits releases False False)
           \<le> change_score (calculate_significance self commits releases True False)
       \<and> change_score (calculate_significance self (cs1 @ cs2) releases readme_changed False)
           \<le> change_score (calculate_significance self (cs1 @ [c] @ cs2) releases readme_changed False)"
proof -
  let ?sc = "scoring_cfg self"
  have w: "\<And>c. 0 \<le> commit_weight ?sc c"
    using assms by (simp add: commit_weight_def)
  have sum: "0 \<le> sum_list (map (commit_weight ?sc) cs)" for cs
    by (induction cs) (simp_all add: w)
  have a: "change_score (calculate_significance self commits (rs1 @ rs2) readme_changed False)
           \<le> change_score (calculate_significance self commits (rs1 @ [r] @ rs2) readme_changed False)"
    using assms sum [of commits]
    by (simp add: calculate_significance_def Let_def fst_score_commits)
  have b: "change_score (calculate_significance self commits releases False False)
           \<le> change_score (calculate_significance self commits releases True False)"
    using assms by (simp add: calculate_significance_def Let_def fst_score_commits)
  have c: "change_score (calculate_significance self (cs1 @ cs2) releases readme_changed False)
           \<le> change_score (calculate_significance self (cs1 @ [c] @ cs2) releases readme_changed False)"
    using assms w [of c] sum [of "[c]"]
    by (simp add: calculate_significance_def Let_def fst_score_commits)
  from a b c show ?thesis by simp
qed

text \<open>Witness for C8 at the documented weights.\<close>

theorem score_monotone_witness:
  "0 \<le> new_release (scoring_cfg default_collector)
   \<and> 0 \<le> readme_changed_w (scoring_cfg default_collector)
   \<and> 0 \<le> feat_commit (scoring_cfg default_collector)
   \<and> 0 \<le> refactor_commit (scoring_cfg default_collector)
   \<and> 0 \<le> fix_commit (scoring_cfg default_collector)
   \<and> no_commits (scoring_cfg default_collector) \<le> 0
   \<and> change_score (calculate_significance default_collector [] ([] @ []) False False)
        \<le> change_score (calculate_significance default_collector [] ([] @ [rel1] @ []) False False)
   \<and> change_score (calculate_significance default_collector [] [rel1] False False)
        \<le> change_score (calculate_significance default_collector [] [rel1] True False)
   \<and> change_score (calculate_significance default_collector ([chore_c] @ []) [rel1] False False)
        \<le> change_score (calculate_significance default_collector ([chore_c] @ [feat_c] @ []) [rel1] False False)"
proof -
  have h: "0 \<le> new_release (scoring_cfg default_collector)"
    "0 \<le> readme_changed_w (scoring_cfg default_collector)"
    "0 \<le> feat_commit (scoring_cfg default_collector)"
    "0 \<le> refactor_commit (scoring_cfg default_collector)"
    "0 \<le> fix_commit (scoring_cfg default_collector)"
    "no_commits (scoring_cfg default_collector) \<le> 0"
    by (simp_all add: default_collector_def default_scoring_def)
  have a: "change_score (calculate_significance default_collector [] ([] @ []) False False)
        \<le> change_score (calculate_significance default_collector [] ([] @ [rel1] @ []) False False)"
    using score_monotone [where self = default_collector and commits = "[]" and ?rs1.0 = "[]"
        and ?rs2.0 = "[]" and readme_changed = False and r = rel1, OF h] by blast
  have b: "change_score (calculate_significance default_collector [] [rel1] False False)
        \<le> change_score (calculate_significance default_collector [] [rel1] True False)"
    using score_monotone [where self = default_collector and commits = "[]"
        and releases = "[rel1]", OF h] by blast
  have c: "change_score (calculate_significance default_collector ([chore_c] @ []) [rel1] False False)
        \<le> change_score (calculate_significance default_collector ([chore_c] @ [feat_c] @ []) [rel1] False False)"
    using score_monotone [where self = default_collector and releases = "[rel1]"
        and ?cs1.0 = "[chore_c]" and ?cs2.0 = "[]" and readme_changed = False and c = feat_c, OF h]
    by blast
  from h a b c show ?thesis by blast
qed

lemma collect_project_shape:
  "collect_project self fetch idx r = Inr pd \<Longrightarrow>
     (p_locked pd \<longrightarrow> p_status pd = ''skip'' \<and> p_change_reason pd = ''locked'')
     \<and> (p_status pd = ''error'' \<longrightarrow> \<not> p_locked pd)"
  by (auto simp: collect_project_def Let_def split: list.splits if_splits sum.splits)

lemma collect_project_returns:
  "length (split_on CHR ''/'' r) = 2 \<Longrightarrow> \<exists>pd. collect_project self fetch idx r = Inr pd"
proof -
  assume "length (split_on CHR ''/'' r) = 2"
  then obtain a b where "split_on CHR ''/'' r = [a, b]"
    by (cases "split_on CHR ''/'' r" rule: list.exhaust)
       (auto simp: length_Suc_conv)
  then show ?thesis
    by (simp add: collect_project_def Let_def split: sum.splits)
qed

lemma update_summary_counts:
  "s_total (update_summary pd s) = s_total s
   \<and> s_locked (update_summary pd s) = s_locked s + (if in_locked pd then 1 else 0)
   \<and> s_updates (update_summary pd s) = s_updates s + (if in_updates pd then 1 else 0)
   \<and> s_new (update_summary pd s) = s_new s + (if in_new pd then 1 else 0)
   \<and> s_skips (update_summary pd s) = s_skips s + (if in_skips pd then 1 else 0)"
  by (simp add: update_summary_def in_locked_def in_updates_def in_new_def in_skips_def)

lemma collect_loop_counts:
  "collect_loop self fetch idx rs ctx = Inr ctx' \<Longrightarrow>
     (\<exists>ps. ctx_projects ctx' = ctx_projects ctx @ ps \<and> length ps = length rs
        \<and> (\<forall>pd \<in> set ps. (p_locked pd \<longrightarrow> p_status pd = ''skip'')
                         \<and> (p_status pd = ''error'' \<longrightarrow> \<not> p_locked pd))
        \<and> s_total (ctx_summary ctx') = s_total (ctx_summary ctx)
        \<and> s_locked (ctx_summary ctx') = s_locked (ctx_summary ctx) + length (filter in_locked ps)
        \<and> s_updates (ctx_summary ctx') = s_updates (ctx_summary ctx) + length (filter in_updates ps)
        \<and> s_new (ctx_summary ctx') = s_new (ctx_summary ctx) + length (filter in_new ps)
        \<and> s_skips (ctx_summary ctx') = s_skips (ctx_summary ctx) + length (filter in_skips ps))"
proof (induction rs arbitrary: ctx)
  case Nil
  then show ?case by simp
next
  case (Cons r rs)
  from Cons.prems obtain pd where pd: "collect_project self fetch idx r = Inr pd"
    by (cases "collect_project self fetch idx r") simp_all
  let ?ctx1 = "\<lparr>ctx_projects = ctx_projects ctx @ [pd],
                ctx_summary = update_summary pd (ctx_summary ctx)\<rparr>"
  from Cons.prems pd have "collect_loop self fetch idx rs ?ctx1 = Inr ctx'" by simp
  from Cons.IH [OF this] obtain ps where ps:
    "ctx_projects ctx' = ctx_projects ?ctx1 @ ps" "length ps = length rs"
    "\<forall>pd \<in> set ps. (p_locked pd \<longrightarrow> p_status pd = ''skip'')
                         \<and> (p_status pd = ''error'' \<longrightarrow> \<not> p_locked pd)"
    "s_total (ctx_summary ctx') = s_total (ctx_summary ?ctx1)"
    "s_locked (ctx_summary ctx') = s_locked (ctx_summary ?ctx1) + length (filter in_locked ps)"
    "s_updates (ctx_summary ctx') = s_updates (ctx_summary ?ctx1) + length (filter in_updates ps)"
    "s_new (ctx_summary ctx') = s_new (ctx_summary ?ctx1) + length (filter in_new ps)"
    "s_skips (ctx_summary ctx') = s_skips (ctx_summary ?ctx1) + length (filter in_skips ps)"
    by blast
  note shape = collect_project_shape [OF pd]
  note upd = update_summary_counts [of pd "ctx_summary ctx"]
  show ?case
  proof (intro exI [of _ "pd # ps"] conjI)
    show "ctx_projects ctx' = ctx_projects ctx @ pd # ps" using ps(1) by simp
    show "length (pd # ps) = length (r # rs)" using ps(2) by simp
    show "\<forall>pd \<in> set (pd # ps). (p_locked pd \<longrightarrow> p_status pd = ''skip'')
                         \<and> (p_status pd = ''error'' \<longrightarrow> \<not> p_locked pd)"
      using ps(3) shape by simp
    show "s_total (ctx_summary ctx') = s_total (ctx_summary ctx)" using ps(4) upd by simp
    show "s_locked (ctx_summary ctx') = s_locked (ctx_summary ctx) + length (filter in_locked (pd # ps))"
      using ps(5) upd by simp
    show "s_updates (ctx_summary ctx') = s_updates (ctx_summary ctx) + length (filter in_updates (pd # ps))"
      using ps(6) upd by simp
    show "s_new (ctx_summary ctx') = s_new (ctx_summary ctx) + length (filter in_new (pd # ps))"
      using ps(7) upd by simp
    show "s_skips (ctx_summary ctx') = s_skips (ctx_summary ctx) + length (filter in_skips (pd # ps))"
      using ps(8) upd by simp
  qed
qed

lemma collect_loop_returns:
  "\<forall>r \<in> set rs. length (split_on CHR ''/'' r) = 2 \<Longrightarrow>
     \<exists>ctx'. collect_loop self fetch idx rs ctx = Inr ctx'"
proof (induction rs arbitrary: ctx)
  case Nil
  then show ?case by simp
next
  case (Cons r rs)
  then obtain pd where "collect_project self fetch idx r = Inr pd"
    using collect_project_returns [of r self fetch idx] by auto
  then show ?case using Cons by simp
qed

lemma buckets_partition:
  "length (filter in_locked ps) + length (filter in_updates ps) + length (filter in_new ps)
     + length (filter in_skips ps) = length ps"
  by (induction ps) (auto simp: in_locked_def in_updates_def in_new_def in_skips_def)

lemma bucket_exactly_one:
  "length (filter id [in_locked pd, in_updates pd, in_new pd, in_skips pd]) = 1"
  by (simp add: in_locked_def in_updates_def in_new_def in_skips_def)

text \<open>
  C10. When every project name splits into owner and repository, \<open>run\<close> returns a
  context in which every project has one entry, the four counters locked, updates, new and
  skips count the entries of their bucket, every entry is in exactly one bucket, and so the
  four counters add up to the total, the number of projects. A locked entry has status
  \<open>skip\<close> and is counted under locked; an entry with status \<open>error\<close> is counted under
  skips.
\<close>

theorem run_summary_partition:
  assumes "\<forall>r \<in> set projects. length (split_on CHR ''/'' r) = 2"
  shows "\<exists>ctx. run self fetch bio_index projects = Inr ctx
           \<and> length (ctx_projects ctx) = length projects
           \<and> s_total (ctx_summary ctx) = length projects
           \<and> s_locked (ctx_summary ctx) + s_updates (ctx_summary ctx) + s_new (ctx_summary ctx)
                + s_skips (ctx_summary ctx) = s_total (ctx_summary ctx)
           \<and> s_locked (ctx_summary ctx) = length (filter in_locked (ctx_projects ctx))
           \<and> s_updates (ctx_summary ctx) = length (filter in_updates (ctx_projects ctx))
           \<and> s_new (ctx_summary ctx) = length (filter in_new (ctx_projects ctx))
           \<and> s_skips (ctx_summary ctx) = length (filter in_skips (ctx_projects ctx))
           \<and> (\<forall>pd \<in> set (ctx_projects ctx).
                 length (filter id [in_locked pd, in_updates pd, in_new pd, in_skips pd]) = 1
                 \<and> (p_locked pd \<longrightarrow> p_status pd = ''skip'' \<and> in_locked pd)
                 \<and> (p_status pd = ''error'' \<longrightarrow> in_skips pd))"
proof -
  define ctx0 where "ctx0 = \<lparr>ctx_projects = [],
        ctx_summary = \<lparr>s_total = length projects, s_updates = 0, s_skips = 0, s_new = 0,
                       s_locked = 0\<rparr>\<rparr>"
  have z: "ctx_projects ctx0 = []" "s_total (ctx_summary ctx0) = length projects"
    "s_locked (ctx_summary ctx0) = 0" "s_updates (ctx_summary ctx0) = 0"
    "s_new (ctx_summary ctx0) = 0" "s_skips (ctx_summary ctx0) = 0"
    by (simp_all add: ctx0_def)
  obtain ctx where ctx: "collect_loop self fetch bio_index projects ctx0 = Inr ctx"
    using collect_loop_returns [OF assms] by blast
  from collect_loop_counts [OF ctx] obtain ps where ps:
    "ctx_projects ctx = ctx_projects ctx0 @ ps" "length ps = length projects"
    "\<forall>pd \<in> set ps. (p_locked pd \<longrightarrow> p_status pd = ''skip'')
                         \<and> (p_status pd = ''error'' \<longrightarrow> \<not> p_locked pd)"
    "s_total (ctx_summary ctx) = s_total (ctx_summary ctx0)"
    "s_locked (ctx_summary ctx) = s_locked (ctx_summary ctx0) + length (filter in_locked ps)"
    "s_updates (ctx_summary ctx) = s_updates (ctx_summary ctx0) + length (filter in_updates ps)"
    "s_new (ctx_summary ctx) = s_new (ctx_summary ctx0) + length (filter in_new ps)"
    "s_skips (ctx_summary ctx) = s_skips (ctx_summary ctx0) + length (filter in_skips ps)"
    by blast
  have eq: "ctx_projects ctx = ps" using ps(1) z(1) by simp
  have r: "run self fetch bio_index projects = Inr ctx"
    using ctx by (simp add: run_def ctx0_def)
  have len: "length (ctx_projects ctx) = length projects"
    using eq ps(2) by simp
  have tot: "s_total (ctx_summary ctx) = length projects"
    using ps(4) z(2) by simp
  have cnt: "s_locked (ctx_summary ctx) = length (filter in_locked (ctx_projects ctx))"
    "s_updates (ctx_summary ctx) = length (filter in_updates (ctx_projects ctx))"
    "s_new (ctx_summary ctx) = length (filter in_new (ctx_projects ctx))"
    "s_skips (ctx_summary ctx) = length (filter in_skips (ctx_projects ctx))"
    using eq ps(5) ps(6) ps(7) ps(8) z by simp_all
  have part: "s_locked (ctx_summary ctx) + s_updates (ctx_summary ctx) + s_new (ctx_summary ctx)
                + s_skips (ctx_summary ctx) = s_total (ctx_summary ctx)"
    using cnt tot len buckets_partition [of "ctx_projects ctx"] by simp
  have each: "\<forall>pd \<in> set (ctx_projects ctx).
                 length (filter id [in_locked pd, in_updates pd, in_new pd, in_skips pd]) = 1
                 \<and> (p_locked pd \<longrightarrow> p_status pd = ''skip'' \<and> in_locked pd)
                 \<and> (p_status pd = ''error'' \<longrightarrow> in_skips pd)"
  proof
    fix pd assume "pd \<in> set (ctx_projects ctx)"
    then have "pd \<in> set ps" using eq by simp
    then have f: "p_locked pd \<longrightarrow> p_status pd = ''skip''"
      "p_status pd = ''error'' \<longrightarrow> \<not> p_locked pd"
      using ps(3) by blast+
    have g: "p_status pd = ''error'' \<longrightarrow> in_skips pd"
      using f(2) by (simp add: in_skips_def)
    have h: "p_locked pd \<longrightarrow> p_status pd = ''skip'' \<and> in_locked pd"
      using f(1) by (simp add: in_locked_def)
    show "length (filter id [in_locked pd, in_updates pd, in_new pd, in_skips pd]) = 1
                 \<and> (p_locked pd \<longrightarrow> p_status pd = ''skip'' \<and> in_locked pd)
                 \<and> (p_status pd = ''error'' \<longrightarrow> in_skips pd)"
      using bucket_exactly_one [of pd] g h by blast
  qed
  show ?thesis
    by (intro exI [of _ ctx] conjI) (rule r len tot part cnt each)+
qed

lemma split_examples:
  "split_on CHR ''/'' ''o/kept'' = [''o'', ''kept'']"
  "split_on CHR ''/'' ''o/down'' = [''o'', ''down'']"
  by simp_all

lemma collect_kept:
  "collect_project default_collector failing_fetch index0 ''o/kept'' =
     Inr \<lparr>p_slug = ''kept'', p_repo = ''o/kept'', p_exists = True, p_locked = True,
             p_status = ''skip'', p_change_score = 0, p_change_reason = ''locked'',
             p_current_html = None, p_manual_sections = []\<rparr>"
  by (simp add: collect_project_def split_examples index0_def)

lemma collect_down:
  "collect_project default_collector failing_fetch index0 ''o/down'' =
     Inr \<lparr>p_slug = ''down'', p_repo = ''o/down'', p_exists = False, p_locked = False,
             p_status = ''error'', p_change_score = 0, p_change_reason = ''fetch_error: timeout'',
             p_current_html = None, p_manual_sections = []\<rparr>"
  by (simp add: collect_project_def split_examples index0_def failing_fetch_def default_bio_state_def)

text \<open>Witness for C10: one locked page and one repository whose fetch fails.\<close>

theorem run_summary_partition_witness:
  "\<exists>ctx. run default_collector failing_fetch index0 [''o/kept'', ''o/down''] = Inr ctx
     \<and> map p_status (ctx_projects ctx) = [''skip'', ''error'']
     \<and> map p_locked (ctx_projects ctx) = [True, False]
     \<and> s_locked (ctx_summary ctx) = 1 \<and> s_skips (ctx_summary ctx) = 1
     \<and> s_updates (ctx_summary ctx) = 0 \<and> s_new (ctx_summary ctx) = 0
     \<and> s_locked (ctx_summary ctx) + s_updates (ctx_summary ctx) + s_new (ctx_summary ctx)
          + s_skips (ctx_summary ctx) = s_total (ctx_summary ctx)"
proof -
  have h: "\<forall>r \<in> set [''o/kept'', ''o/down'']. length (split_on CHR ''/'' r) = 2"
    by (simp add: split_examples)
  have ev: "run default_collector failing_fetch index0 [''o/kept'', ''o/down''] =
    Inr \<lparr>ctx_projects =
           [\<lparr>p_slug = ''kept'', p_repo = ''o/kept'', p_exists = True, p_locked = True,
             p_status = ''skip'', p_change_score = 0, p_change_reason = ''locked'',
             p_current_html = None, p_manual_sections = []\<rparr>,
            \<lparr>p_slug = ''down'', p_repo = ''o/down'', p_exists = False, p_locked = False,
             p_status = ''error'', p_change_score = 0, p_change_reason = ''fetch_error: timeout'',
             p_current_html = None, p_manual_sections = []\<rparr>],
          ctx_summary = \<lparr>s_total = 2, s_updates = 0, s_skips = 1, s_new = 0, s_locked = 1\<rparr>\<rparr>"
    by (simp add: run_def collect_kept collect_down update_summary_def)
  from run_summary_partition [OF h, of default_collector failing_fetch index0]
  obtain ctx where c: "run default_collector failing_fetch index0 [''o/kept'', ''o/down''] = Inr ctx"
    and p: "s_locked (ctx_summary ctx) + s_updates (ctx_summary ctx) + s_new (ctx_summary ctx)
          + s_skips (ctx_summary ctx) = s_total (ctx_summary ctx)"
    by blast
  from c ev have "ctx = \<lparr>ctx_projects =
           [\<lparr>p_slug = ''kept'', p_repo = ''o/kept'', p_exists = True, p_locked = True,
             p_status = ''skip'', p_change_score = 0, p_change_reason = ''locked'',
             p_current_html = None, p_manual_sections = []\<rparr>,
            \<lparr>p_slug = ''down'', p_repo = ''o/down'', p_exists = False, p_locked = False,
             p_status = ''error'', p_change_score = 0, p_change_reason = ''fetch_error: timeout'',
             p_current_html = None, p_manual_sections = []\<rparr>],
          ctx_summary = \<lparr>s_total = 2, s_updates = 0, s_skips = 1, s_new = 0, s_locked = 1\<rparr>\<rparr>"
    by simp
  with c show ?thesis by simp
qed

section \<open>Properties of the Editor\<close>

lemma lower_char_code: "is_upper c \<Longrightarrow> of_char (lower_char c) = (of_char c :: nat) + 32"
proof (cases c)
  case (Char x1 x2 x3 x4 x5 x6 x7 x8)
  assume "is_upper c"
  then show ?thesis
    unfolding Char lower_char_def is_upper_def
    by (cases x1; cases x2; cases x3; cases x4; cases x5; cases x6; cases x7; cases x8) simp_all
qed

lemma append_missing_list:
  "\<exists>ys. append_missing draft (Some xs) secs = Inr (Some ys)"
  by (induction secs arbitrary: xs) (simp_all add: append_issue_def)

lemma checks_on_invalid_html:
  assumes "\<not> is_valid_html draft" and "rv_issues verdict \<noteq> NotAList"
    and "forbidden_words pol = Some words"
    and "rv_status verdict \<noteq> None \<or> found_forbidden words draft = []"
  shows "\<exists>v. add_deterministic_checks pol verdict draft = Inr v
             \<and> rv_status v = Some (Str ''REJECT'')
             \<and> rv_reason v = Some ''Invalid HTML structure''"
proof -
  from assms(2) obtain xs where xs: "get_issues verdict = Some xs"
    by (cases "rv_issues verdict") (simp_all add: get_issues_def)
  have "\<exists>ys v1. check_forbidden pol draft (Some xs, verdict) = Inr (Some ys, v1)"
  proof (cases "found_forbidden words draft = []")
    case True
    with assms(3) show ?thesis by (simp add: check_forbidden_def)
  next
    case False
    with assms(4) obtain a where a: "rv_status verdict = Some a" by auto
    from False assms(3) a show ?thesis
      by (cases "a = Str ''APPROVE''")
         (simp_all add: check_forbidden_def append_issue_def Let_def)
  qed
  then obtain ys v1 where
    c1: "check_forbidden pol draft (Some xs, verdict) = Inr (Some ys, v1)"
    by blast
  from assms(1) have
    c2: "check_html draft (Some ys, v1) =
           Inr (Some (ys @ [''HTML structure appears invalid'']),
                v1\<lparr>rv_status := Some (Str ''REJECT''),
                   rv_reason := Some ''Invalid HTML structure''\<rparr>)"
    by (simp add: check_html_def append_issue_def)
  obtain zs where
    c3: "append_missing draft (Some (ys @ [''HTML structure appears invalid'']))
           (case required_sections pol of None \<Rightarrow> [] | Some xs \<Rightarrow> xs) = Inr (Some zs)"
    using append_missing_list by blast
  show ?thesis
    by (simp add: add_deterministic_checks_def xs c1 c2 c3)
qed

lemma checks_raise_on_invalid_html:
  assumes "\<not> is_valid_html draft"
    and "rv_issues verdict = NotAList \<or> forbidden_words pol = None
         \<or> (\<exists>words. forbidden_words pol = Some words \<and> rv_status verdict = None
                      \<and> found_forbidden words draft \<noteq> [])"
  shows "\<exists>e. add_deterministic_checks pol verdict draft = Inl e"
proof (cases "forbidden_words pol")
  case None
  then show ?thesis
    by (simp add: add_deterministic_checks_def check_forbidden_def)
next
  case (Some words)
  show ?thesis
  proof (cases "rv_issues verdict = NotAList")
    case True
    then have g: "get_issues verdict = None" by (simp add: get_issues_def)
    show ?thesis
      using assms(1) Some
      by (simp add: add_deterministic_checks_def g check_forbidden_def check_html_def
                    append_issue_def Let_def)
  next
    case False
    with assms(2) Some have s: "rv_status verdict = None" "found_forbidden words draft \<noteq> []"
      by auto
    from False obtain xs where xs: "get_issues verdict = Some xs"
      by (cases "rv_issues verdict") (simp_all add: get_issues_def)
    show ?thesis
      using Some s
      by (simp add: add_deterministic_checks_def xs check_forbidden_def append_issue_def Let_def)
  qed
qed

lemma editor_step_loaded:
  assumes "drafts (di_path info) = Some draft" and "draft \<noteq> []"
    and "find_project_context context (di_slug info) = Some project_context"
  shows "editor_step pol context drafts info review saved res =
           (case review of
              Inl e \<Rightarrow> record_error res (di_slug info) e
            | Inr JOther \<Rightarrow> record_error res (di_slug info) attribute_error
            | Inr (JObject verdict0) \<Rightarrow>
                (case add_deterministic_checks pol verdict0 draft of
                   Inl e \<Rightarrow> record_error res (di_slug info) e
                 | Inr verdict \<Rightarrow>
                     (case saved of
                        Some e \<Rightarrow> record_error res (di_slug info) e
                      | None \<Rightarrow>
                          (let res1 = res\<lparr>er_verdicts :=
                                             er_verdicts res @ [entry_of (di_slug info) verdict]\<rparr>
                           in case rv_status verdict of
                                None \<Rightarrow> record_error res1 (di_slug info) (key_error ''status'')
                              | Some Unhashable \<Rightarrow>
                                  record_error (count_status Unhashable res1) (di_slug info)
                                    type_error
                              | Some (Str st) \<Rightarrow>
                                  (case rv_reason verdict of
                                     None \<Rightarrow>
                                       record_error (count_status (Str st) res1) (di_slug info)
                                         (key_error ''reason'')
                                   | Some reason \<Rightarrow> count_status (Str st) res1)))))"
  using assms by (simp add: editor_step_def Let_def)

lemma record_error_entry:
  "\<exists>entry. record_error res slug e = res\<lparr>er_verdicts := er_verdicts res @ [entry]\<rparr>
            \<and> rv_status entry = Some (Str ''ERROR'') \<and> rv_slug entry = Some slug"
  unfolding record_error_def
  by (rule exI [where x = "\<lparr>rv_slug = Some slug, rv_status = Some (Str ''ERROR''),
        rv_reason = Some (exn_text e), rv_issues = NoIssues, rv_diff_summary = None,
        rv_change_percentage = None\<rparr>"]) simp

lemma editor_step_passes_over:
  assumes "drafts (di_path info) = None \<or> drafts (di_path info) = Some []
           \<or> find_project_context ctx (di_slug info) = None"
  shows "editor_step pol ctx drafts info review saved res = res"
  using assms by (auto simp: editor_step_def Let_def split: option.splits)

lemma no_body_draft_invalid: "\<not> is_valid_html no_body_draft"
  by (simp add: no_body_draft_def is_valid_html_def lower_def lower_char_def is_upper_def)

lemma no_body_draft_forbidden:
  "found_forbidden [''revolutionary''] no_body_draft = [''revolutionary'']"
  by (simp add: no_body_draft_def found_forbidden_def lower_def lower_char_def is_upper_def)

lemma demo_loaded:
  "demo_drafts (di_path demo_info) = Some no_body_draft" "no_body_draft \<noteq> []"
  "find_project_context demo_context (di_slug demo_info) =
     Some (hd (the demo_context))"
  by (simp_all add: demo_drafts_def demo_info_def no_body_draft_def find_project_context_def
                    demo_context_def)

lemma null_issues_checks:
  "add_deterministic_checks policy0 null_issues_review no_body_draft = Inl attribute_error"
  by (simp add: add_deterministic_checks_def get_issues_def null_issues_review_def
        approve_review_def check_forbidden_def policy0_def no_body_draft_forbidden
        append_issue_def Let_def)

text \<open>
  C7, as stated, fails. A draft with no body element fails \<open>_is_valid_html\<close>; the reviewer
  answers APPROVE with \<open>"issues": null\<close>; appending the first issue raises before any status
  is set, and the one entry recorded for the draft has status ERROR. An empty draft
  fails the check too, and \<open>run\<close> records no verdict for it at all.
\<close>

theorem invalid_html_error_counterexample:
  "\<not> is_valid_html no_body_draft
   \<and> rv_status null_issues_review = Some (Str ''APPROVE'')
   \<and> editor_step policy0 demo_context demo_drafts demo_info (Inr (JObject null_issues_review))
        None no_verdicts =
       no_verdicts\<lparr>er_verdicts :=
         [\<lparr>rv_slug = Some ''demo'', rv_status = Some (Str ''ERROR''),
           rv_reason = Some ''AttributeError'', rv_issues = NoIssues, rv_diff_summary = None,
           rv_change_percentage = None\<rparr>]\<rparr>
   \<and> \<not> is_valid_html []
   \<and> editor_step policy0 demo_context empty_drafts demo_info (Inr (JObject approve_review))
        None no_verdicts = no_verdicts"
proof -
  have a: "rv_status null_issues_review = Some (Str ''APPROVE'')"
    by (simp add: null_issues_review_def approve_review_def)
  have b: "editor_step policy0 demo_context demo_drafts demo_info
             (Inr (JObject null_issues_review)) None no_verdicts =
           no_verdicts\<lparr>er_verdicts :=
             [\<lparr>rv_slug = Some ''demo'', rv_status = Some (Str ''ERROR''),
               rv_reason = Some ''AttributeError'', rv_issues = NoIssues,
               rv_diff_summary = None, rv_change_percentage = None\<rparr>]\<rparr>"
  proof -
    have "editor_step policy0 demo_context demo_drafts demo_info
             (Inr (JObject null_issues_review)) None no_verdicts =
          record_error no_verdicts (di_slug demo_info) attribute_error"
      by (simp add: null_issues_checks
            editor_step_loaded [where drafts = demo_drafts and info = demo_info, OF demo_loaded])
    then show ?thesis
      by (simp add: record_error_def attribute_error_def exn_text_def no_verdicts_def
            demo_info_def)
  qed
  have c: "\<not> is_valid_html []"
    by (simp add: is_valid_html_def lower_def)
  have d: "editor_step policy0 demo_context empty_drafts demo_info
             (Inr (JObject approve_review)) None no_verdicts = no_verdicts"
    by (simp add: editor_step_def empty_drafts_def demo_info_def)
  from no_body_draft_invalid a b c d show ?thesis by blast
qed

text \<open>
  C7, amended. For a draft that was loaded, is not empty, has a project context and
  fails \<open>_is_valid_html\<close>, the loop body appends exactly one entry. When the reviewer
  returned an object whose issues are absent or a list, the policy lists its forbidden
  words, the object has a status or the draft contains no forbidden word, and the
  verdict file was written, that entry has status REJECT and reason "Invalid HTML
  structure", whatever status the reviewer gave, and the count of rejected drafts grows
  by one. In every other case the entry has status ERROR and the counts are unchanged.
\<close>

theorem invalid_html_reject_or_error:
  assumes "drafts (di_path info) = Some draft" and "draft \<noteq> []"
    and "find_project_context context (di_slug info) = Some project_context"
    and "\<not> is_valid_html draft"
  shows "(usable_review pol draft review saved \<longrightarrow>
            (\<exists>entry. editor_step pol context drafts info review saved res =
                        res\<lparr>er_verdicts := er_verdicts res @ [entry],
                            er_rejected := er_rejected res + 1\<rparr>
                    \<and> rv_status entry = Some (Str ''REJECT'')
                    \<and> rv_reason entry = Some ''Invalid HTML structure''))
       \<and> (\<not> usable_review pol draft review saved \<longrightarrow>
            (\<exists>entry. editor_step pol context drafts info review saved res =
                        res\<lparr>er_verdicts := er_verdicts res @ [entry]\<rparr>
                    \<and> rv_status entry = Some (Str ''ERROR'')
                    \<and> rv_slug entry = Some (di_slug info)))"
proof (intro conjI impI)
  note step = editor_step_loaded [where drafts = drafts and info = info, OF assms(1-3)]
  {
  assume u: "usable_review pol draft review saved"
  then obtain verdict0 words where
    r: "review = Inr (JObject verdict0)" and i: "rv_issues verdict0 \<noteq> NotAList"
    and w: "forbidden_words pol = Some words"
    and s: "rv_status verdict0 \<noteq> None \<or> found_forbidden words draft = []"
    and sv: "saved = None"
    by (auto simp: usable_review_def split: sum.splits json_value.splits option.splits)
  from checks_on_invalid_html [OF assms(4) i w s] obtain v where
    v: "add_deterministic_checks pol verdict0 draft = Inr v"
       "rv_status v = Some (Str ''REJECT'')" "rv_reason v = Some ''Invalid HTML structure''"
    by blast
  have "editor_step pol context drafts info review saved res =
          res\<lparr>er_verdicts := er_verdicts res @ [entry_of (di_slug info) v],
              er_rejected := er_rejected res + 1\<rparr>"
    by (simp add: step r sv v count_status_def)
  moreover have "rv_status (entry_of (di_slug info) v) = Some (Str ''REJECT'')"
    "rv_reason (entry_of (di_slug info) v) = Some ''Invalid HTML structure''"
    using v by (simp_all add: entry_of_def)
  ultimately show "\<exists>entry. editor_step pol context drafts info review saved res =
                        res\<lparr>er_verdicts := er_verdicts res @ [entry],
                            er_rejected := er_rejected res + 1\<rparr>
                    \<and> rv_status entry = Some (Str ''REJECT'')
                    \<and> rv_reason entry = Some ''Invalid HTML structure''"
    by blast
  }
  assume n: "\<not> usable_review pol draft review saved"
  have "\<exists>e. editor_step pol context drafts info review saved res =
              record_error res (di_slug info) e"
  proof (cases review)
    case (Inl e)
    then show ?thesis by (auto simp: step)
  next
    case (Inr j)
    show ?thesis
    proof (cases j)
      case JOther
      with Inr show ?thesis by (auto simp: step)
    next
      case (JObject verdict0)
      show ?thesis
      proof (cases "rv_issues verdict0 = NotAList \<or> forbidden_words pol = None
          \<or> (\<exists>words. forbidden_words pol = Some words \<and> rv_status verdict0 = None
                      \<and> found_forbidden words draft \<noteq> [])")
        case True
        from checks_raise_on_invalid_html [OF assms(4) True] obtain e where
          "add_deterministic_checks pol verdict0 draft = Inl e" by blast
        with Inr JObject show ?thesis by (auto simp: step)
      next
        case False
        with n Inr JObject obtain e where sv: "saved = Some e"
          by (auto simp: usable_review_def split: option.splits)
        from False obtain words where w: "forbidden_words pol = Some words"
          and i: "rv_issues verdict0 \<noteq> NotAList"
          and s: "rv_status verdict0 \<noteq> None \<or> found_forbidden words draft = []"
          by auto
        from checks_on_invalid_html [OF assms(4) i w s] obtain v where
          "add_deterministic_checks pol verdict0 draft = Inr v" by blast
        with Inr JObject sv show ?thesis by (auto simp: step)
      qed
    qed
  qed
  then obtain e where "editor_step pol context drafts info review saved res =
              record_error res (di_slug info) e" by blast
  with record_error_entry [of res "di_slug info" e]
  show "\<exists>entry. editor_step pol context drafts info review saved res =
                        res\<lparr>er_verdicts := er_verdicts res @ [entry]\<rparr>
                    \<and> rv_status entry = Some (Str ''ERROR'')
                    \<and> rv_slug entry = Some (di_slug info)"
    by simp
qed

text \<open>
  Witness for C7: the draft with no body element and a forbidden word, approved by the
  reviewer, ends as REJECT; with \<open>"issues": null\<close> in the answer it ends as ERROR.
\<close>

theorem invalid_html_reject_or_error_witness:
  "\<not> is_valid_html no_body_draft
   \<and> rv_status approve_review = Some (Str ''APPROVE'')
   \<and> usable_review policy0 no_body_draft (Inr (JObject approve_review)) None
   \<and> (\<exists>entry. editor_step policy0 demo_context demo_drafts demo_info
                 (Inr (JObject approve_review)) None no_verdicts =
               no_verdicts\<lparr>er_verdicts := er_verdicts no_verdicts @ [entry],
                           er_rejected := er_rejected no_verdicts + 1\<rparr>
             \<and> rv_status entry = Some (Str ''REJECT'')
             \<and> rv_reason entry = Some ''Invalid HTML structure'')
   \<and> \<not> usable_review policy0 no_body_draft (Inr (JObject null_issues_review)) None
   \<and> (\<exists>entry. editor_step policy0 demo_context demo_drafts demo_info
                 (Inr (JObject null_issues_review)) None no_verdicts =
               no_verdicts\<lparr>er_verdicts := er_verdicts no_verdicts @ [entry]\<rparr>
             \<and> rv_status entry = Some (Str ''ERROR'')
             \<and> rv_slug entry = Some (di_slug demo_info))"
proof -
  have a: "rv_status approve_review = Some (Str ''APPROVE'')"
    by (simp add: approve_review_def)
  have u: "usable_review policy0 no_body_draft (Inr (JObject approve_review)) None"
    by (simp add: usable_review_def approve_review_def policy0_def)
  have n: "\<not> usable_review policy0 no_body_draft (Inr (JObject null_issues_review)) None"
    by (simp add: usable_review_def null_issues_review_def)
  note inst = invalid_html_reject_or_error [where drafts = demo_drafts and info = demo_info
      and pol = policy0 and saved = None and res = no_verdicts,
      OF demo_loaded no_body_draft_invalid]
  from inst [where review = "Inr (JObject approve_review)"]
       inst [where review = "Inr (JObject null_issues_review)"]
       no_body_draft_invalid a u n
  show ?thesis by blast
qed

section \<open>Properties of the Deployer\<close>

lemma gatekeeper_rejected:
  assumes "verdict_status verdict = ''REJECT'' \<or> verdict_status verdict = ''ERROR''"
  shows "gatekeeper api self sha1 snapshot drafts verdict w =
           (Inr (Skip (case v_reason verdict of None \<Rightarrow> ''Rejected by Editor'' | Some r \<Rightarrow> r)), w)"
  using assms by (auto simp: gatekeeper_def Let_def)

text \<open>
  C5. For a verdict whose status is REJECT or ERROR (an absent status counts as ERROR), the
  decision is skip with the verdict's reason ("Rejected by Editor" when it has none), and
  the loop body only appends (slug, reason) to the skipped list. The equations hold for
  every remote side and every snapshot and leave the remote state \<open>w\<close> as it was: no
  freshness check, no risk check and no remote call is made.
\<close>

theorem rejected_is_skipped:
  assumes "verdict_status verdict = ''REJECT'' \<or> verdict_status verdict = ''ERROR''"
  shows "gatekeeper api self sha1 snapshot drafts verdict w =
           (Inr (Skip (case v_reason verdict of None \<Rightarrow> ''Rejected by Editor'' | Some r \<Rightarrow> r)), w)
       \<and> deploy_verdict api self sha1 today snapshot drafts verdict res w =
           (Inr (res\<lparr>skipped := skipped res @
                   [(v_slug verdict,
                     case v_reason verdict of None \<Rightarrow> ''Rejected by Editor'' | Some r \<Rightarrow> r)]\<rparr>), w)"
  using gatekeeper_rejected [OF assms, of api self sha1 snapshot drafts w]
  by (simp add: deploy_verdict_def Let_def)

text \<open>Witness for C5: a rejected draft, on a remote side that counts its calls.\<close>

theorem rejected_is_skipped_witness:
  "(verdict_status (rejected ''demo'') = ''REJECT'' \<or> verdict_status (rejected ''demo'') = ''ERROR'')
   \<and> deploy_verdict (static_api (remote_file ''<html>edited</html>'')) auto_deployer toy_sha1
        ''2024-01-01'' (Some [published ''demo'' (Some ''<html>old</html>'')])
        [''demo'' \<mapsto> ''<html>new</html>''] (rejected ''demo'') no_results 0 =
       (Inr \<lparr>pushed = [], prs = [], skipped = [(''demo'', ''Invalid HTML structure'')], errors = []\<rparr>, 0)"
proof -
  have h: "verdict_status (rejected ''demo'') = ''REJECT'' \<or> verdict_status (rejected ''demo'') = ''ERROR''"
    by (simp add: verdict_status_def rejected_def)
  have r: "v_reason (rejected ''demo'') = Some ''Invalid HTML structure''"
    "v_slug (rejected ''demo'') = ''demo''"
    by (simp_all add: rejected_def)
  show ?thesis
    using h rejected_is_skipped [OF h, of "static_api (remote_file ''<html>edited</html>'')"
        auto_deployer toy_sha1 "Some [published ''demo'' (Some ''<html>old</html>'')]"
        "[''demo'' \<mapsto> ''<html>new</html>'']" 0 "''2024-01-01''" no_results]
    by (simp add: r no_results_def)
qed

text \<open>
  C1. For a verdict whose status is neither REJECT nor ERROR and whose draft file was
  loaded, when the freshness check returns \<open>stale = True\<close> the decision is a pull request,
  whatever the mode, the status and the change percentage are, and the loop body takes the
  pull-request path: it records the pull request, or the error of creating it, and never
  writes to the target branch directly.
\<close>

theorem stale_forces_pull_request:
  assumes "verdict_status verdict \<noteq> ''REJECT''" and "verdict_status verdict \<noteq> ''ERROR''"
    and "drafts (v_slug verdict) = Some content"
    and "check_freshness api self sha1 snapshot (v_slug verdict) w = (Inr fresh, w')"
    and "stale fresh"
  shows "gatekeeper api self sha1 snapshot drafts verdict w = (Inr PullRequest, w')
       \<and> deploy_verdict api self sha1 today snapshot drafts verdict res w =
           (case create_pull_request api self today (v_slug verdict) content verdict w' of
              (Inr url, w'') \<Rightarrow>
                (Inr (res\<lparr>prs := prs res @
                        [\<lparr>pr_slug = v_slug verdict, pr_url = url,
                          pr_reason = (if mode self = ''manual'' then ''manual mode''
                                       else verdict_status verdict)\<rparr>]\<rparr>), w'')
            | (Inl e, w'') \<Rightarrow>
                (Inr (res\<lparr>errors := errors res @ [(v_slug verdict, exn_text e)]\<rparr>), w''))"
proof -
  have g: "gatekeeper api self sha1 snapshot drafts verdict w = (Inr PullRequest, w')"
    using assms by (simp add: gatekeeper_def Let_def)
  then show ?thesis
    using assms(3) by (simp add: deploy_verdict_def Let_def)
qed


lemma fresh_edited:
  "check_freshness (static_api (remote_file ''<html>edited</html>'')) auto_deployer toy_sha1
     (Some [published ''demo'' (Some ''<html>old</html>'')]) ''demo'' 0 =
   (Inr \<lparr>stale = True, expected_sha = Some ''sha1:<html>old</html>'',
         current_sha = Some ''blob''\<rparr>, 1)"
  by (simp add: check_freshness_def static_api_def remote_file_def auto_deployer_def toy_sha1_def
      published_def truthy_def)

text \<open>
  Witness for C1: mode auto, status APPROVE and a change of 0 percent, where
  \<open>_should_create_pr\<close> alone would choose the direct write; the page was edited remotely.
\<close>

theorem stale_forces_pull_request_witness:
  "verdict_status (approved ''demo'') = ''APPROVE''
   \<and> mode auto_deployer = ''auto''
   \<and> \<not> should_create_pr auto_deployer ''APPROVE'' (approved ''demo'')
   \<and> gatekeeper (static_api (remote_file ''<html>edited</html>'')) auto_deployer toy_sha1
        (Some [published ''demo'' (Some ''<html>old</html>'')])
        [''demo'' \<mapsto> ''<html>new</html>''] (approved ''demo'') 0 = (Inr PullRequest, 1)"
proof -
  have st: "verdict_status (approved ''demo'') = ''APPROVE''"
    by (simp add: verdict_status_def approved_def approve_verdict_def)
  have sl: "v_slug (approved ''demo'') = ''demo''"
    by (simp add: approved_def)
  have a: "verdict_status (approved ''demo'') \<noteq> ''REJECT''"
    and b: "verdict_status (approved ''demo'') \<noteq> ''ERROR''"
    by (simp_all add: st)
  have c: "[''demo'' \<mapsto> ''<html>new</html>''] (v_slug (approved ''demo'')) = Some ''<html>new</html>''"
    by (simp add: sl)
  have d: "check_freshness (static_api (remote_file ''<html>edited</html>'')) auto_deployer toy_sha1
     (Some [published ''demo'' (Some ''<html>old</html>'')]) (v_slug (approved ''demo'')) 0 =
   (Inr \<lparr>stale = True, expected_sha = Some ''sha1:<html>old</html>'',
         current_sha = Some ''blob''\<rparr>, 1)"
    by (simp add: sl fresh_edited)
  have e: "stale \<lparr>stale = True, expected_sha = Some ''sha1:<html>old</html>'',
         current_sha = Some ''blob''\<rparr>"
    by simp
  have m: "mode auto_deployer = ''auto''"
    by (simp add: auto_deployer_def)
  have n: "\<not> should_create_pr auto_deployer ''APPROVE'' (approved ''demo'')"
    by (simp add: should_create_pr_def auto_deployer_def approved_def)
  have "gatekeeper (static_api (remote_file ''<html>edited</html>'')) auto_deployer toy_sha1
        (Some [published ''demo'' (Some ''<html>old</html>'')])
        [''demo'' \<mapsto> ''<html>new</html>''] (approved ''demo'') 0 = (Inr PullRequest, 1)"
    using stale_forces_pull_request [where verdict = "approved ''demo''"
        and drafts = "[''demo'' \<mapsto> ''<html>new</html>'']" and content = "''<html>new</html>''"
        and api = "static_api (remote_file ''<html>edited</html>'')" and self = auto_deployer
        and ?sha1.0 = toy_sha1 and snapshot = "Some [published ''demo'' (Some ''<html>old</html>'')]"
        and w = 0 and w' = 1, OF a b c d e]
    by blast
  with st m n show ?thesis by blast
qed

lemma dry_run_deploy_frame:
  "snd (deploy_verdict api (d\<lparr>deployer_dry_run := True\<rparr>) sha1 today snapshot drafts verdict res w)
     = snd (gatekeeper api (d\<lparr>deployer_dry_run := True\<rparr>) sha1 snapshot drafts verdict w)"
proof -
  obtain r w' where g: "gatekeeper api (d\<lparr>deployer_dry_run := True\<rparr>) sha1 snapshot drafts verdict w = (r, w')"
    by (cases "gatekeeper api (d\<lparr>deployer_dry_run := True\<rparr>) sha1 snapshot drafts verdict w")
  show ?thesis
  proof (cases r)
    case (Inl e)
    with g show ?thesis by (simp add: deploy_verdict_def Let_def)
  next
    case (Inr dec)
    with g show ?thesis
      by (cases dec) (simp_all add: deploy_verdict_def Let_def create_pull_request_def direct_push_def)
  qed
qed

text \<open>
  C9. The scorer, the collection of a project, \<open>_should_create_pr\<close>, the freshness check
  and the gatekeeper's decision return the same result whatever the dry-run flag is set
  to. The two deploying methods read it: with dry-run set they return at once and leave
  the remote state as it was, for every remote side, so that the loop body leaves the
  remote state as the decision left it; with dry-run off a direct push calls the remote
  side (twice in the example).
\<close>

theorem decisions_ignore_dry_run:
  "calculate_significance (c\<lparr>dry_run := b\<rparr>) commits releases readme_changed is_new =
     calculate_significance c commits releases readme_changed is_new
   \<and> collect_project (c\<lparr>dry_run := b\<rparr>) fetch bio_index repo_full_name =
     collect_project c fetch bio_index repo_full_name
   \<and> should_create_pr (d\<lparr>deployer_dry_run := b\<rparr>) st verdict = should_create_pr d st verdict
   \<and> check_freshness api (d\<lparr>deployer_dry_run := b\<rparr>) sha1 snapshot slug w =
     check_freshness api d sha1 snapshot slug w
   \<and> gatekeeper api (d\<lparr>deployer_dry_run := b\<rparr>) sha1 snapshot drafts verdict w =
     gatekeeper api d sha1 snapshot drafts verdict w
   \<and> create_pull_request api (d\<lparr>deployer_dry_run := True\<rparr>) today slug content verdict w =
     (Inr ''https://github.com/dry-run/pr'', w)
   \<and> direct_push api (d\<lparr>deployer_dry_run := True\<rparr>) slug content w = (Inr (), w)
   \<and> snd (deploy_verdict api (d\<lparr>deployer_dry_run := True\<rparr>) sha1 today snapshot drafts
             verdict res w)
       = snd (gatekeeper api (d\<lparr>deployer_dry_run := True\<rparr>) sha1 snapshot drafts verdict w)
   \<and> snd (direct_push (static_api (remote_file ''<html>old</html>''))
             (auto_deployer\<lparr>deployer_dry_run := False\<rparr>) ''demo'' ''<html>new</html>'' 0) = 2"
proof -
  have s: "calculate_significance (c\<lparr>dry_run := b\<rparr>) commits releases readme_changed is_new =
     calculate_significance c commits releases readme_changed is_new" for commits releases readme_changed is_new
    by (simp add: calculate_significance_def)
  have p: "collect_project (c\<lparr>dry_run := b\<rparr>) fetch bio_index repo_full_name =
     collect_project c fetch bio_index repo_full_name"
    by (simp add: collect_project_def s Let_def split: list.splits sum.splits)
  have q: "should_create_pr (d\<lparr>deployer_dry_run := b\<rparr>) st verdict = should_create_pr d st verdict" for st
    by (simp add: should_create_pr_def)
  have f: "check_freshness api (d\<lparr>deployer_dry_run := b\<rparr>) sha1 snapshot slug w =
     check_freshness api d sha1 snapshot slug w" for slug
    by (simp add: check_freshness_def Let_def split: option.splits)
  have g: "gatekeeper api (d\<lparr>deployer_dry_run := b\<rparr>) sha1 snapshot drafts verdict w =
     gatekeeper api d sha1 snapshot drafts verdict w"
    by (simp add: gatekeeper_def q f Let_def split: option.splits prod.splits sum.splits)
  have e1: "create_pull_request api (d\<lparr>deployer_dry_run := True\<rparr>) today slug content verdict w =
     (Inr ''https://github.com/dry-run/pr'', w)"
    by (simp add: create_pull_request_def)
  have e2: "direct_push api (d\<lparr>deployer_dry_run := True\<rparr>) slug content w = (Inr (), w)"
    by (simp add: direct_push_def)
  have e3: "snd (direct_push (static_api (remote_file ''<html>old</html>''))
             (auto_deployer\<lparr>deployer_dry_run := False\<rparr>) ''demo'' ''<html>new</html>'' 0) = 2"
    by (simp add: direct_push_def put_file_def static_api_def remote_file_def auto_deployer_def)
  note e4 = dry_run_deploy_frame [of api d sha1 today snapshot drafts verdict res w]
  from s p q f g e1 e2 e3 e4 show ?thesis by blast
qed

text \<open>
  C4. The claim is what the docstring of \<open>_check_freshness\<close> promises ("Check if the
  bio site file was modified since our Collector ran"), and the code breaks it for a
  snapshot without content. The page existed with empty content when the Collector ran
  and was edited since: the fingerprints differ, so the claim says stale; the check
  returns \<open>stale = False\<close>, because the empty \<open>current_html\<close> is false in
  \<open>if project.get("current_html")\<close> (line 188), no expected fingerprint is set and the
  comparison of line 204 is skipped. In mode auto with an approved draft the gatekeeper
  then decides for the direct write, over the edit. The sibling path for a deleted page
  (404) does report stale for the same snapshot.
\<close>

theorem empty_snapshot_edit_not_detected:
  "p_exists (published ''demo'' (Some []))
   \<and> stale_as_claimed toy_sha1 [] (Some ''<html>edited</html>'')
   \<and> check_freshness (static_api (remote_file ''<html>edited</html>'')) auto_deployer toy_sha1
       (Some [published ''demo'' (Some [])]) ''demo'' 0 =
       (Inr \<lparr>stale = False, expected_sha = None, current_sha = Some ''blob''\<rparr>, 1)
   \<and> gatekeeper (static_api (remote_file ''<html>edited</html>'')) auto_deployer toy_sha1
       (Some [published ''demo'' (Some [])]) [''demo'' \<mapsto> ''<html>new</html>'']
       (approved ''demo'') 0 = (Inr DirectWrite, 1)
   \<and> check_freshness (static_api (Inl (GithubException 404))) auto_deployer toy_sha1
       (Some [published ''demo'' (Some [])]) ''demo'' 0 =
       (Inr \<lparr>stale = True, expected_sha = None, current_sha = None\<rparr>, 1)"
proof -
  have a: "check_freshness (static_api (remote_file ''<html>edited</html>'')) auto_deployer toy_sha1
       (Some [published ''demo'' (Some [])]) ''demo'' 0 =
       (Inr \<lparr>stale = False, expected_sha = None, current_sha = Some ''blob''\<rparr>, 1)"
    by (simp add: check_freshness_def static_api_def remote_file_def auto_deployer_def
        published_def truthy_def)
  have b: "check_freshness (static_api (Inl (GithubException 404))) auto_deployer toy_sha1
       (Some [published ''demo'' (Some [])]) ''demo'' 0 =
       (Inr \<lparr>stale = True, expected_sha = None, current_sha = None\<rparr>, 1)"
    by (simp add: check_freshness_def static_api_def auto_deployer_def published_def truthy_def)
  have s: "v_slug (approved ''demo'') = ''demo''" "verdict_status (approved ''demo'') = ''APPROVE''"
    by (simp_all add: approved_def verdict_status_def approve_verdict_def)
  have n: "\<not> should_create_pr auto_deployer ''APPROVE'' (approved ''demo'')"
    by (simp add: should_create_pr_def auto_deployer_def approved_def)
  have c: "gatekeeper (static_api (remote_file ''<html>edited</html>'')) auto_deployer toy_sha1
       (Some [published ''demo'' (Some [])]) [''demo'' \<mapsto> ''<html>new</html>'']
       (approved ''demo'') 0 = (Inr DirectWrite, 1)"
    by (simp add: gatekeeper_def s a n)
  have d: "p_exists (published ''demo'' (Some []))"
    by (simp add: published_def)
  have e: "stale_as_claimed toy_sha1 [] (Some ''<html>edited</html>'')"
    by (simp add: stale_as_claimed_def toy_sha1_def)
  from a b c d e show ?thesis by blast
qed

text \<open>What the freshness check returns, case by case.\<close>

lemma freshness_no_record:
  assumes "find (\<lambda>p. p_slug p = slug) projects = None
           \<or> (\<exists>p. find (\<lambda>p. p_slug p = slug) projects = Some p \<and> \<not> p_exists p)"
  shows "check_freshness api self sha1 (Some projects) slug w = (Inr not_stale, w)"
  using assms by (auto simp: check_freshness_def not_stale_def)

lemma freshness_recorded:
  assumes sha: "\<forall>s. sha1 s \<noteq> []"
    and found: "find (\<lambda>p. p_slug p = slug) projects = Some project"
    and ex: "p_exists project"
    and html: "p_current_html project = Some html" "html \<noteq> []"
  shows "case get_contents api (output_dir self @ slug @ ''.html'') (target_branch self) w of
           (Inr current_file, w') \<Rightarrow>
             (case cf_decoded current_file of
                Some current \<Rightarrow>
                  (\<exists>f. check_freshness api self sha1 (Some projects) slug w = (Inr f, w')
                       \<and> stale f = (sha1 current \<noteq> sha1 html))
              | None \<Rightarrow>
                  check_freshness api self sha1 (Some projects) slug w =
                    (Inl (OtherException ''UnicodeDecodeError''), w'))
         | (Inl (GithubException st), w') \<Rightarrow>
             (\<exists>f. check_freshness api self sha1 (Some projects) slug w = (Inr f, w')
                  \<and> stale f = (st = 404))
         | (Inl e, w') \<Rightarrow> check_freshness api self sha1 (Some projects) slug w = (Inl e, w')"
proof -
  have t: "truthy (Some html)" "truthy (Some (sha1 html))"
    using sha html by (simp_all add: truthy_def)
  obtain r w' where g:
    "get_contents api (output_dir self @ slug @ ''.html'') (target_branch self) w = (r, w')"
    by (cases "get_contents api (output_dir self @ slug @ ''.html'') (target_branch self) w")
  show ?thesis
  proof (cases r)
    case (Inr cf)
    then show ?thesis
      using g found ex html t
      by (cases "cf_decoded cf") (auto simp: check_freshness_def Let_def)
  next
    case (Inl e)
    then show ?thesis
      using g found ex html t
      by (cases e) (auto simp: check_freshness_def Let_def)
  qed
qed


lemma freshness_without_content:
  assumes found: "find (\<lambda>p. p_slug p = slug) projects = Some project"
    and ex: "p_exists project"
    and html: "\<not> truthy (p_current_html project)"
  shows "case get_contents api (output_dir self @ slug @ ''.html'') (target_branch self) w of
           (Inr current_file, w') \<Rightarrow>
             (case cf_decoded current_file of
                Some current \<Rightarrow>
                  (\<exists>f. check_freshness api self sha1 (Some projects) slug w = (Inr f, w')
                       \<and> \<not> stale f)
              | None \<Rightarrow>
                  check_freshness api self sha1 (Some projects) slug w =
                    (Inl (OtherException ''UnicodeDecodeError''), w'))
         | (Inl (GithubException st), w') \<Rightarrow>
             (\<exists>f. check_freshness api self sha1 (Some projects) slug w = (Inr f, w')
                  \<and> stale f = (st = 404))
         | (Inl e, w') \<Rightarrow> check_freshness api self sha1 (Some projects) slug w = (Inl e, w')"
proof -
  obtain r w' where g:
    "get_contents api (output_dir self @ slug @ ''.html'') (target_branch self) w = (r, w')"
    by (cases "get_contents api (output_dir self @ slug @ ''.html'') (target_branch self) w")
  show ?thesis
  proof (cases r)
    case (Inr cf)
    then show ?thesis
      using g found ex html
      by (cases "cf_decoded cf") (auto simp: check_freshness_def Let_def truthy_def)
  next
    case (Inl e)
    then show ?thesis
      using g found ex html
      by (cases e) (auto simp: check_freshness_def Let_def)
  qed
qed

text \<open>
  For a snapshot with content the check is as claimed. With no snapshot, with no entry for
  the slug, or with an entry that does not record an existing artifact, the check returns
  \<open>stale = False\<close> and fetches nothing. For an entry that records an existing artifact
  with non-empty content: when the fetch returns the file, \<open>stale\<close> is true exactly when
  the fingerprint of the remote content differs from the fingerprint of the snapshot
  content; when the fetch raises a GithubException, \<open>stale\<close> is true exactly when its
  status is 404 (the artifact is absent); any other exception, and content that does not
  decode, leaves the check as an exception. The digest is assumed never to be the empty
  string.
\<close>

lemma freshness_stale_iff_diverged:
  assumes "\<forall>s. sha1 s \<noteq> []"
  shows "check_freshness api self sha1 None slug w = (Inr not_stale, w)
       \<and> (find (\<lambda>p. p_slug p = slug) projects = None
            \<or> (\<exists>p. find (\<lambda>p. p_slug p = slug) projects = Some p \<and> \<not> p_exists p)
          \<longrightarrow> check_freshness api self sha1 (Some projects) slug w = (Inr not_stale, w))
       \<and> (find (\<lambda>p. p_slug p = slug) projects = Some project \<and> p_exists project
            \<and> p_current_html project = Some html \<and> html \<noteq> []
          \<longrightarrow> (case get_contents api (output_dir self @ slug @ ''.html'') (target_branch self) w of
                 (Inr current_file, w') \<Rightarrow>
                   (case cf_decoded current_file of
                      Some current \<Rightarrow>
                        (\<exists>f. check_freshness api self sha1 (Some projects) slug w = (Inr f, w')
                             \<and> stale f = (sha1 current \<noteq> sha1 html))
                    | None \<Rightarrow>
                        check_freshness api self sha1 (Some projects) slug w =
                          (Inl (OtherException ''UnicodeDecodeError''), w'))
               | (Inl (GithubException st), w') \<Rightarrow>
                   (\<exists>f. check_freshness api self sha1 (Some projects) slug w = (Inr f, w')
                        \<and> stale f = (st = 404))
               | (Inl e, w') \<Rightarrow>
                   check_freshness api self sha1 (Some projects) slug w = (Inl e, w')))"
proof (intro conjI impI)
  show "check_freshness api self sha1 None slug w = (Inr not_stale, w)"
    by (simp add: check_freshness_def not_stale_def)
next
  assume "find (\<lambda>p. p_slug p = slug) projects = None
            \<or> (\<exists>p. find (\<lambda>p. p_slug p = slug) projects = Some p \<and> \<not> p_exists p)"
  then show "check_freshness api self sha1 (Some projects) slug w = (Inr not_stale, w)"
    by (rule freshness_no_record)
next
  assume a: "find (\<lambda>p. p_slug p = slug) projects = Some project \<and> p_exists project
            \<and> p_current_html project = Some html \<and> html \<noteq> []"
  show "case get_contents api (output_dir self @ slug @ ''.html'') (target_branch self) w of
                 (Inr current_file, w') \<Rightarrow>
                   (case cf_decoded current_file of
                      Some current \<Rightarrow>
                        (\<exists>f. check_freshness api self sha1 (Some projects) slug w = (Inr f, w')
                             \<and> stale f = (sha1 current \<noteq> sha1 html))
                    | None \<Rightarrow>
                        check_freshness api self sha1 (Some projects) slug w =
                          (Inl (OtherException ''UnicodeDecodeError''), w'))
               | (Inl (GithubException st), w') \<Rightarrow>
                   (\<exists>f. check_freshness api self sha1 (Some projects) slug w = (Inr f, w')
                        \<and> stale f = (st = 404))
               | (Inl e, w') \<Rightarrow>
                   check_freshness api self sha1 (Some projects) slug w = (Inl e, w')"
    by (rule freshness_recorded [OF assms a [THEN conjunct1] a [THEN conjunct2, THEN conjunct1]
          a [THEN conjunct2, THEN conjunct2, THEN conjunct1]
          a [THEN conjunct2, THEN conjunct2, THEN conjunct2]])
qed

text \<open>
  Examples with content in the snapshot: the page was edited remotely (stale), is
  unchanged (not stale), was deleted (stale).
\<close>

lemma freshness_examples:
  "(\<forall>s. toy_sha1 s \<noteq> [])
   \<and> find (\<lambda>p. p_slug p = ''demo'') [published ''demo'' (Some ''<html>old</html>'')]
       = Some (published ''demo'' (Some ''<html>old</html>''))
   \<and> p_exists (published ''demo'' (Some ''<html>old</html>''))
   \<and> p_current_html (published ''demo'' (Some ''<html>old</html>'')) = Some ''<html>old</html>''
   \<and> (\<exists>f. check_freshness (static_api (remote_file ''<html>edited</html>'')) auto_deployer
              toy_sha1 (Some [published ''demo'' (Some ''<html>old</html>'')]) ''demo'' 0
            = (Inr f, 1) \<and> stale f)
   \<and> (\<exists>f. check_freshness (static_api (remote_file ''<html>old</html>'')) auto_deployer
              toy_sha1 (Some [published ''demo'' (Some ''<html>old</html>'')]) ''demo'' 0
            = (Inr f, 1) \<and> \<not> stale f)
   \<and> (\<exists>f. check_freshness (static_api (Inl (GithubException 404))) auto_deployer
              toy_sha1 (Some [published ''demo'' (Some ''<html>old</html>'')]) ''demo'' 0
            = (Inr f, 1) \<and> stale f)"
proof -
  let ?p = "published ''demo'' (Some ''<html>old</html>'')"
  have h: "\<forall>s. toy_sha1 s \<noteq> []"
    by (simp add: toy_sha1_def)
  have a: "find (\<lambda>p. p_slug p = ''demo'') [?p] = Some ?p" "p_exists ?p"
    "p_current_html ?p = Some ''<html>old</html>''" "''<html>old</html>'' \<noteq> []"
    by (simp_all add: published_def)
  have pre: "find (\<lambda>p. p_slug p = ''demo'') [?p] = Some ?p \<and> p_exists ?p
            \<and> p_current_html ?p = Some ''<html>old</html>'' \<and> ''<html>old</html>'' \<noteq> []"
    using a by blast
  have g: "\<And>file path ref w. get_contents (static_api file) path ref w = (file, Suc w)"
    by (simp add: static_api_def)
  note inst = freshness_stale_iff_diverged [OF h, where slug = "''demo''" and projects = "[?p]"
      and project = ?p and html = "''<html>old</html>''" and self = auto_deployer and w = 0]
  have e1: "\<exists>f. check_freshness (static_api (remote_file ''<html>edited</html>'')) auto_deployer
              toy_sha1 (Some [?p]) ''demo'' 0 = (Inr f, 1) \<and> stale f"
    using inst [where api = "static_api (remote_file ''<html>edited</html>'')"] pre
    by (simp add: g remote_file_def toy_sha1_def)
  have e2: "\<exists>f. check_freshness (static_api (remote_file ''<html>old</html>'')) auto_deployer
              toy_sha1 (Some [?p]) ''demo'' 0 = (Inr f, 1) \<and> \<not> stale f"
    using inst [where api = "static_api (remote_file ''<html>old</html>'')"] pre
    by (simp add: g remote_file_def toy_sha1_def)
  have e3: "\<exists>f. check_freshness (static_api (Inl (GithubException 404))) auto_deployer
              toy_sha1 (Some [?p]) ''demo'' 0 = (Inr f, 1) \<and> stale f"
    using inst [where api = "static_api (Inl (GithubException 404))"] pre
    by (simp add: g)
  from h a e1 e2 e3 show ?thesis by blast
qed

section \<open>Properties of the manual sections\<close>

lemma strip_prefix_append:
  "strip_prefix (p @ q) s = (case strip_prefix p s of None \<Rightarrow> None | Some r \<Rightarrow> strip_prefix q r)"
  by (induction p s rule: strip_prefix.induct) auto

lemma strip_prefix_self: "strip_prefix p (p @ r) = Some r"
  by (simp add: strip_prefix_Some)

lemma strip_prefix_None: "strip_prefix p s = None \<longleftrightarrow> (\<forall>r. s \<noteq> p @ r)"
  using strip_prefix_Some [of p s] by (cases "strip_prefix p s") auto

lemma starts_with_strip: "starts_with p s \<longleftrightarrow> strip_prefix p s \<noteq> None"
  by (induction p s rule: starts_with.induct) auto

lemma has_sub_iff: "has_sub p s \<longleftrightarrow> (\<exists>u v. s = u @ p @ v)"
proof (induction s)
  case Nil
  then show ?case by auto
next
  case (Cons c cs)
  have "starts_with p (c # cs) \<longleftrightarrow> (\<exists>v. c # cs = p @ v)"
    using strip_prefix_None [of p "c # cs"] by (auto simp: starts_with_strip)
  moreover have "(\<exists>u v. c # cs = u @ p @ v) \<longleftrightarrow> (\<exists>v. c # cs = p @ v) \<or> (\<exists>u v. cs = u @ p @ v)"
  proof
    assume "\<exists>u v. c # cs = u @ p @ v"
    then obtain u v where uv: "c # cs = u @ p @ v" by blast
    show "(\<exists>v. c # cs = p @ v) \<or> (\<exists>u v. cs = u @ p @ v)"
    proof (cases u)
      case Nil
      with uv show ?thesis by auto
    next
      case (Cons a u')
      with uv have "cs = u' @ p @ v" by simp
      then show ?thesis by blast
    qed
  next
    assume "(\<exists>v. c # cs = p @ v) \<or> (\<exists>u v. cs = u @ p @ v)"
    then show "\<exists>u v. c # cs = u @ p @ v"
    proof
      assume "\<exists>v. c # cs = p @ v"
      then obtain v where "c # cs = [] @ p @ v" by auto
      then show ?thesis by blast
    next
      assume "\<exists>u v. cs = u @ p @ v"
      then obtain u v where "c # cs = (c # u) @ p @ v" by auto
      then show ?thesis by blast
    qed
  qed
  ultimately show ?case using Cons.IH by simp
qed

lemma free_append: "free p (x1 @ x2) y = (free p x1 (x2 @ y) \<and> free p x2 y)"
  by (induction x1) auto

lemma free_no_head: "a \<notin> set x \<Longrightarrow> free (a # p') x y"
  by (induction x) auto

lemma free_boundary:
  assumes "a \<notin> set p'" and "\<not> has_sub (a # p') x" and "y = [] \<or> hd y = a"
  shows "free (a # p') x y"
  using assms(2)
proof (induction x)
  case Nil
  then show ?case by simp
next
  case (Cons c x)
  have sub: "\<not> has_sub (a # p') x" using Cons.prems by simp
  have "strip_prefix (a # p') (c # x @ y) = None"
  proof (rule ccontr)
    assume "strip_prefix (a # p') (c # x @ y) \<noteq> None"
    then obtain r where "strip_prefix (a # p') (c # x @ y) = Some r"
      by blast
    then have r: "c # x @ y = (a # p') @ r"
      by (simp only: strip_prefix_Some)
    show False
    proof (cases "length (a # p') \<le> length (c # x)")
      case True
      from r have "take (length (a # p')) ((c # x) @ y) = a # p'"
        by (metis append_Cons append_eq_conv_conj)
      with True have "take (length (a # p')) (c # x) = a # p'" by simp
      then have "c # x = [] @ (a # p') @ drop (length (a # p')) (c # x)"
        by (metis append_Nil append_take_drop_id)
      then have "has_sub (a # p') (c # x)" unfolding has_sub_iff by blast
      with Cons.prems show False by simp
    next
      case False
      then have k: "length (c # x) < length (a # p')" by simp
      have "((c # x) @ y) ! length (c # x) = ((a # p') @ r) ! length (c # x)"
        using r by simp
      moreover have "((a # p') @ r) ! length (c # x) = (a # p') ! length (c # x)"
        using k by (simp only: nth_append if_True)
      moreover have "(a # p') ! length (c # x) = p' ! length x" by simp
      moreover have "length x < length p'" using k by simp
      ultimately have e: "((c # x) @ y) ! length (c # x) \<in> set p'"
        by (metis nth_mem)
      have "length (a # p') \<le> length ((c # x) @ y)"
        using r by (metis append_Cons le_add1 length_append)
      with k have "y \<noteq> []" by auto
      then have "((c # x) @ y) ! length (c # x) = hd y"
        by (simp add: nth_append hd_conv_nth)
      with e assms(3) \<open>y \<noteq> []\<close> assms(1) show False by auto
    qed
  qed
  with Cons.IH [OF sub] show ?case by simp
qed

lemma split_at_first_free:
  "free p x (p @ r) \<Longrightarrow> split_at_first p (x @ p @ r) = Some (x, r)"
proof (induction x)
  case Nil
  have "strip_prefix p (p @ r) = Some r" by (rule strip_prefix_self)
  then show ?case by (cases "p @ r") simp_all
next
  case (Cons c x)
  then show ?case by simp
qed

lemma split_at_first_no_sub:
  "split_at_first p s = Some (b, r) \<Longrightarrow> free p b (p @ r)"
proof (induction s arbitrary: b)
  case Nil
  then show ?case by (auto split: option.splits)
next
  case (Cons c cs)
  show ?case
  proof (cases "strip_prefix p (c # cs)")
    case None
    with Cons.prems obtain b' where b': "split_at_first p cs = Some (b', r)" "b = c # b'"
      by (auto split: option.splits)
    from Cons.IH [OF b'(1)] have "free p b' (p @ r)" .
    moreover have "c # cs = c # b' @ p @ r"
      using split_at_first_Some [OF b'(1)] by simp
    ultimately show ?thesis using None b'(2) by simp
  next
    case (Some rest)
    with Cons.prems show ?thesis by simp
  qed
qed

lemma free_not_has_sub: "free p x y \<Longrightarrow> p \<noteq> [] \<Longrightarrow> \<not> has_sub p x"
proof (induction x)
  case Nil
  then show ?case by simp
next
  case (Cons c x)
  have "\<not> starts_with p (c # x)"
  proof
    assume "starts_with p (c # x)"
    then obtain v where "c # x = p @ v"
      using strip_prefix_None [of p "c # x"] by (auto simp: starts_with_strip)
    then have "c # x @ y = p @ (v @ y)" by (metis append_Cons append_assoc)
    with Cons.prems(1) show False by (simp add: strip_prefix_None)
  qed
  with Cons show ?case by simp
qed

lemma not_word_chars:
  "\<not> word_char (CHR ''<'')" "\<not> word_char (CHR '' '')" "\<not> word_char (CHR 0x5C)"
  by (simp_all add: word_char_def is_upper_def is_lower_def is_digit_def)

lemma valid_name_chars:
  assumes "valid_name n"
  shows "CHR ''<'' \<notin> set n" "CHR '' '' \<notin> set n" "CHR 0x5C \<notin> set n"
  using assms not_word_chars by (auto simp: valid_name_def list_all_iff)

lemma begin_marker_Cons:
  "begin_marker n = CHR ''<'' # (''!-- MANUAL:'' @ n @ '' -->'')"
  by (simp add: begin_marker_def begin_prefix_def comment_close_def)

lemma end_marker_Cons:
  "end_marker n = CHR ''<'' # (''!-- /MANUAL:'' @ n @ '' -->'')"
  by (simp add: end_marker_def end_prefix_def comment_close_def)

lemma begin_prefix_Cons: "begin_prefix = CHR ''<'' # ''!-- MANUAL:''"
  by (simp add: begin_prefix_def)

lemma free_begin_plain:
  "plain x \<Longrightarrow> y = [] \<or> hd y = CHR ''<'' \<Longrightarrow> free begin_prefix x y"
  unfolding plain_def begin_prefix_Cons
  by (rule free_boundary) simp_all

lemma free_end_body:
  assumes "valid_name n" and "body_ok n b"
  shows "free (end_marker n) b (end_marker n @ r)"
proof -
  have "CHR ''<'' \<notin> set (''!-- /MANUAL:'' @ n @ '' -->'')"
    using valid_name_chars(1) [OF assms(1)] by simp
  moreover have "\<not> has_sub (CHR ''<'' # (''!-- /MANUAL:'' @ n @ '' -->'')) b"
    using assms(2) by (simp add: body_ok_def end_marker_Cons)
  moreover have "hd ((CHR ''<'' # (''!-- /MANUAL:'' @ n @ '' -->'')) @ r) = CHR ''<''"
    by simp
  ultimately have "free (CHR ''<'' # (''!-- /MANUAL:'' @ n @ '' -->'')) b
                     ((CHR ''<'' # (''!-- /MANUAL:'' @ n @ '' -->'')) @ r)"
    by (intro free_boundary) auto
  then show ?thesis by (simp only: end_marker_Cons)
qed

lemma match_placeholder_block:
  assumes "valid_name n" and "body_ok n b"
  shows "match_placeholder n (block n b @ r) = Some (block n b, r)"
proof -
  have "strip_prefix (begin_marker n) (block n b @ r) = Some (b @ end_marker n @ r)"
    by (simp add: block_def strip_prefix_Some)
  moreover have "split_at_first (end_marker n) (b @ end_marker n @ r) = Some (b, r)"
    by (rule split_at_first_free [OF free_end_body [OF assms]])
  ultimately show ?thesis by (simp add: match_placeholder_def block_def)
qed

lemma takeWhile_name:
  "valid_name n \<Longrightarrow> takeWhile word_char (n @ comment_close @ z) = n"
  by (simp add: valid_name_def comment_close_def list_all_iff not_word_chars takeWhile_append2)

lemma dropWhile_name:
  "valid_name n \<Longrightarrow> dropWhile word_char (n @ comment_close @ z) = comment_close @ z"
  by (simp add: valid_name_def comment_close_def list_all_iff not_word_chars dropWhile_append2)

lemma other_name_no_match:
  assumes "valid_name n" and "valid_name m" and "n \<noteq> m"
  shows "strip_prefix (begin_marker n) (begin_marker m @ z) = None"
proof (rule ccontr)
  assume "strip_prefix (begin_marker n) (begin_marker m @ z) \<noteq> None"
  then obtain r where "strip_prefix (begin_marker n) (begin_marker m @ z) = Some r" by blast
  then have "begin_marker m @ z = begin_marker n @ r" by (simp only: strip_prefix_Some)
  then have "m @ comment_close @ z = n @ comment_close @ r"
    by (simp add: begin_marker_def)
  then have "takeWhile word_char (m @ comment_close @ z) = takeWhile word_char (n @ comment_close @ r)"
    by simp
  then have "m = n" using assms by (simp add: takeWhile_name)
  with assms(3) show False by simp
qed

lemma no_prefix_no_placeholder:
  "strip_prefix begin_prefix s = None \<Longrightarrow> match_placeholder n s = None"
  by (simp add: match_placeholder_def begin_marker_def strip_prefix_append)

lemma no_prefix_no_begin:
  "strip_prefix begin_prefix s = None \<Longrightarrow> match_begin s = None"
  by (simp add: match_begin_def)

lemma no_prefix_no_section:
  "strip_prefix begin_prefix s = None \<Longrightarrow> match_section s = None"
  by (simp add: match_section_def no_prefix_no_begin)

lemma block_interior_free:
  assumes "valid_name m" and "body_ok m b"
  shows "free begin_prefix (tl (block m b)) z"
proof -
  have tl: "tl (block m b) = (''!-- MANUAL:'' @ m @ '' -->'') @ b @ end_marker m"
    by (simp add: block_def begin_marker_Cons)
  have a: "free begin_prefix (''!-- MANUAL:'' @ m @ '' -->'') y" for y
    unfolding begin_prefix_Cons
    using valid_name_chars(1) [OF assms(1)] by (intro free_no_head) simp
  have b: "free begin_prefix b (end_marker m @ z)"
    using assms(2) by (intro free_begin_plain) (simp_all add: body_ok_def end_marker_Cons)
  have "strip_prefix begin_prefix (end_marker m @ z) = None"
    by (simp add: begin_prefix_def end_marker_def end_prefix_def)
  moreover have "free begin_prefix (''!-- /MANUAL:'' @ m @ '' -->'') z"
    unfolding begin_prefix_Cons
    using valid_name_chars(1) [OF assms(1)] by (intro free_no_head) simp
  ultimately have c: "free begin_prefix (end_marker m) z"
    by (simp add: end_marker_Cons)
  show ?thesis
    unfolding tl using a b c by (simp add: free_append)
qed

lemma sub_all_skip:
  "free begin_prefix x y \<Longrightarrow> sub_all n ps (x @ y) = x @ sub_all n ps y"
  by (induction x) (simp_all add: no_prefix_no_placeholder)

lemma sub_all_same_block:
  assumes "valid_name n" and "body_ok n b"
  shows "sub_all n ps (block n b @ z) = expand ps (block n b) @ sub_all n ps z"
proof -
  obtain c cs where c: "block n b @ z = c # cs"
    by (cases "block n b @ z") (simp_all add: block_def begin_marker_Cons)
  have "match_placeholder n (c # cs) = Some (block n b, z)"
    using match_placeholder_block [OF assms, of z] c by simp
  then have "sub_all n ps (c # cs) = expand ps (block n b) @ sub_all n ps z" by simp
  with c show ?thesis by simp
qed

lemma sub_all_other_block:
  assumes "valid_name n" and "valid_name m" and "body_ok m b" and "n \<noteq> m"
  shows "sub_all n ps (block m b @ z) = block m b @ sub_all n ps z"
proof -
  have hd: "block m b = CHR ''<'' # tl (block m b)"
    by (simp add: block_def begin_marker_Cons)
  have "strip_prefix (begin_marker n) (block m b @ z) = None"
    using other_name_no_match [OF assms(1,2,4), of "b @ end_marker m @ z"]
    by (simp add: block_def)
  then have "match_placeholder n (block m b @ z) = None"
    by (simp add: match_placeholder_def)
  then have "match_placeholder n (CHR ''<'' # tl (block m b) @ z) = None"
    using hd by (metis append_Cons)
  then have "sub_all n ps (CHR ''<'' # tl (block m b) @ z)
               = CHR ''<'' # sub_all n ps (tl (block m b) @ z)"
    by simp
  also have "\<dots> = CHR ''<'' # tl (block m b) @ sub_all n ps z"
    using sub_all_skip [OF block_interior_free [OF assms(2,3)]] by simp
  finally show ?thesis using hd by (metis append_Cons)
qed

lemma expand_literal: "expand (map Lit f) m = f"
  by (induction f) (simp_all add: expand_def)

lemma parse_template_literal: "CHR 0x5C \<notin> set f \<Longrightarrow> parse_template f = Inr (map Lit f)"
  by (induction f) auto

lemma sub_all_doc:
  assumes "valid_name n" and "body_ok n c"
  shows "well_formed d \<Longrightarrow>
           sub_all n (map Lit (block n c)) (render d) = render (subst_doc n c d)"
proof (induction d)
  case (End t)
  then have "free begin_prefix t []" by (intro free_begin_plain) simp_all
  from sub_all_skip [OF this, of n "map Lit (block n c)"] show ?case by simp
next
  case (Sec t m b d)
  let ?ps = "map Lit (block n c)"
  from Sec.prems have wf: "plain t" "valid_name m" "body_ok m b" "well_formed d" by simp_all
  have "hd (block m b @ render d) = CHR ''<''"
    by (simp add: block_def begin_marker_Cons)
  with wf(1) have "free begin_prefix t (block m b @ render d)"
    by (intro free_begin_plain) simp_all
  then have 1: "sub_all n ?ps (t @ block m b @ render d)
                  = t @ sub_all n ?ps (block m b @ render d)"
    by (rule sub_all_skip)
  have 2: "sub_all n ?ps (block m b @ render d)
             = block m (if m = n then c else b) @ sub_all n ?ps (render d)"
  proof (cases "m = n")
    case True
    then show ?thesis
      using sub_all_same_block [OF assms(1), of b ?ps "render d"] wf(3)
      by (simp add: expand_literal)
  next
    case False
    then show ?thesis
      using sub_all_other_block [OF assms(1) wf(2) wf(3), of ?ps "render d"] by auto
  qed
  show ?case using 1 2 Sec.IH [OF wf(4)] by simp
qed

lemma well_formed_subst:
  "valid_name n \<Longrightarrow> body_ok n c \<Longrightarrow> well_formed d \<Longrightarrow> well_formed (subst_doc n c d)"
  by (induction d) auto

lemma block_no_backslash:
  assumes "valid_name n" and "CHR 0x5C \<notin> set c"
  shows "CHR 0x5C \<notin> set (block n c)"
  using assms valid_name_chars(3) [OF assms(1)]
  by (simp add: block_def begin_marker_def end_marker_def begin_prefix_def end_prefix_def
      comment_close_def)

lemma match_begin_block:
  assumes "valid_name n"
  shows "match_begin (begin_marker n @ z) = Some (n, z)"
proof -
  have "strip_prefix begin_prefix (begin_marker n @ z) = Some (n @ comment_close @ z)"
    by (simp add: begin_marker_def strip_prefix_Some)
  moreover have "takeWhile word_char (n @ comment_close @ z) = n"
    by (rule takeWhile_name [OF assms])
  moreover have "dropWhile word_char (n @ comment_close @ z) = comment_close @ z"
    by (rule dropWhile_name [OF assms])
  moreover have "n \<noteq> []" using assms by (simp add: valid_name_def)
  ultimately show ?thesis
    by (simp add: match_begin_def strip_prefix_self)
qed

lemma search_name_block:
  assumes "valid_name n"
  shows "search_name (block n c) = Some n"
proof -
  obtain x xs where x: "block n c = x # xs"
    by (cases "block n c") (simp_all add: block_def begin_marker_Cons)
  have "match_begin (block n c) = Some (n, c @ end_marker n)"
    using match_begin_block [OF assms, of "c @ end_marker n"] by (simp add: block_def)
  with x show ?thesis by simp
qed

lemma re_sub_doc:
  assumes "valid_name n" and "body_ok n c" and "CHR 0x5C \<notin> set c" and "well_formed d"
  shows "re_sub n (block n c) (render d) = Inr (render (subst_doc n c d))"
  using parse_template_literal [OF block_no_backslash [OF assms(1,3)]]
    sub_all_doc [OF assms(1,2,4)]
  by (simp add: re_sub_def)

lemma inject_doc:
  "list_all fragment_ok frs \<Longrightarrow> well_formed d \<Longrightarrow>
     inject_manual_sections (render d) (map (\<lambda>nc. block (fst nc) (snd nc)) frs)
       = Inr (render (fold (\<lambda>nc. subst_doc (fst nc) (snd nc)) frs d))"
proof (induction frs arbitrary: d)
  case Nil
  then show ?case by simp
next
  case (Cons nc frs)
  from Cons.prems have "fragment_ok nc" and rest: "list_all fragment_ok frs"
    by simp_all
  then have ok: "valid_name (fst nc)" "body_ok (fst nc) (snd nc)"
    "CHR 0x5C \<notin> set (snd nc)" "list_all fragment_ok frs"
    by (simp_all add: fragment_ok_def)
  have wf: "well_formed (subst_doc (fst nc) (snd nc) d)"
    using well_formed_subst [OF ok(1,2) Cons.prems(2)] .
  show ?case
    using search_name_block [OF ok(1), of "snd nc"] re_sub_doc [OF ok(1,2,3) Cons.prems(2)]
      Cons.IH [OF ok(4) wf]
    by simp
qed

lemma fill_subst:
  "n \<notin> fst ` set frs \<Longrightarrow> fill frs (subst_doc n c d) = fill ((n, c) # frs) d"
proof (induction d)
  case (End t)
  then show ?case by simp
next
  case (Sec t m b d)
  then have "map_of frs n = None" by (simp add: map_of_eq_None_iff)
  with Sec show ?case by simp
qed

lemma fold_subst_fill:
  "distinct (map fst frs) \<Longrightarrow> fold (\<lambda>nc. subst_doc (fst nc) (snd nc)) frs d = fill frs d"
proof (induction frs arbitrary: d)
  case Nil
  show ?case by (induction d) simp_all
next
  case (Cons nc frs)
  then have "fst nc \<notin> fst ` set frs" "distinct (map fst frs)" by simp_all
  then show ?case
    using Cons.IH [of "subst_doc (fst nc) (snd nc) d"] fill_subst [of "fst nc" frs "snd nc" d]
    by simp
qed

lemma render_fill:
  "render (fill frs d) = render_with (\<lambda>n. map_option (block n) (map_of frs n)) d"
  by (induction d) (simp_all split: option.splits)

lemma end_marker_not_Nil: "end_marker n \<noteq> []"
  by (simp add: end_marker_Cons)

lemma match_section_shape:
  assumes "match_section s = Some (m, r)"
  shows "\<exists>n c. m = block n c \<and> valid_name n \<and> \<not> has_sub (end_marker n) c"
proof -
  from assms obtain n s2 c where
    mb: "match_begin s = Some (n, s2)" and
    sp: "split_at_first (end_marker n) s2 = Some (c, r)" and
    m: "m = begin_marker n @ c @ end_marker n"
    by (auto simp: match_section_def split: option.splits)
  from mb obtain s1 where "n = takeWhile word_char s1" "n \<noteq> []"
    by (auto simp: match_begin_def split: option.splits if_splits)
  then have "valid_name n"
    by (auto simp: valid_name_def list_all_iff dest: set_takeWhileD)
  moreover have "\<not> has_sub (end_marker n) c"
    using free_not_has_sub [OF split_at_first_no_sub [OF sp] end_marker_not_Nil] .
  ultimately show ?thesis using m by (auto simp: block_def)
qed

lemma extract_shape:
  "f \<in> set (extract_manual_sections a) \<Longrightarrow>
     \<exists>n c. f = block n c \<and> valid_name n \<and> \<not> has_sub (end_marker n) c"
proof (induction a rule: extract_manual_sections.induct)
  case 1
  then show ?case by simp
next
  case (2 c cs)
  show ?case
  proof (cases "match_section (c # cs)")
    case None
    with 2 show ?thesis by simp
  next
    case (Some mr)
    obtain m r where mr: "mr = (m, r)" by (cases mr)
    with Some 2 have "f = m \<or> f \<in> set (extract_manual_sections r)" by simp
    then show ?thesis
    proof
      assume "f = m"
      with match_section_shape [of "c # cs" m r] Some mr show ?thesis by simp
    next
      assume "f \<in> set (extract_manual_sections r)"
      with "2.IH"(2) [OF Some mr [symmetric]] show ?thesis by simp
    qed
  qed
qed

lemma simple_block_body:
  assumes "simple_fragment (block n c)"
  shows "plain c" "CHR 0x5C \<notin> set c"
proof -
  have tl: "tl (block n c) = (''!-- MANUAL:'' @ n @ '' -->'') @ c @ end_marker n"
    by (simp add: block_def begin_marker_Cons)
  have "has_sub begin_prefix c \<Longrightarrow> has_sub begin_prefix (tl (block n c))"
    unfolding has_sub_iff tl by (metis append_assoc)
  with assms show "plain c" by (auto simp: simple_fragment_def plain_def)
  from assms show "CHR 0x5C \<notin> set c" by (simp add: simple_fragment_def block_def)
qed

lemma fragments_as_pairs:
  "\<forall>f \<in> set fs. \<exists>nc. f = block (fst nc) (snd nc) \<and> fragment_ok nc \<Longrightarrow>
     \<exists>frs. fs = map (\<lambda>nc. block (fst nc) (snd nc)) frs \<and> list_all fragment_ok frs"
proof (induction fs)
  case Nil
  then show ?case by simp
next
  case (Cons f fs)
  then obtain nc frs where "f = block (fst nc) (snd nc)" "fragment_ok nc"
    "fs = map (\<lambda>nc. block (fst nc) (snd nc)) frs" "list_all fragment_ok frs"
    by auto
  then have "f # fs = map (\<lambda>nc. block (fst nc) (snd nc)) (nc # frs) \<and> list_all fragment_ok (nc # frs)"
    by simp
  then show ?case by (rule exI [of _ "nc # frs"])
qed

lemma extract_as_pairs:
  assumes "list_all simple_fragment (extract_manual_sections a)"
  shows "\<exists>frs. extract_manual_sections a = map (\<lambda>nc. block (fst nc) (snd nc)) frs
           \<and> list_all fragment_ok frs"
proof (rule fragments_as_pairs, rule ballI)
  fix f assume f: "f \<in> set (extract_manual_sections a)"
  from extract_shape [OF f] obtain n c where
    nc: "f = block n c" "valid_name n" "\<not> has_sub (end_marker n) c" by blast
  from assms f have "simple_fragment f" by (simp add: list_all_iff)
  with nc(1) have "plain c" "CHR 0x5C \<notin> set c"
    using simple_block_body [of n c] by simp_all
  with nc have "f = block (fst (n, c)) (snd (n, c)) \<and> fragment_ok (n, c)"
    by (simp add: fragment_ok_def body_ok_def)
  then show "\<exists>nc. f = block (fst nc) (snd nc) \<and> fragment_ok nc" by blast
qed

lemma fragment_named_pairs:
  "list_all fragment_ok frs \<Longrightarrow>
     fragment_named (map (\<lambda>nc. block (fst nc) (snd nc)) frs) n
       = map_option (block n) (map_of frs n)"
proof (induction frs)
  case Nil
  then show ?case by (simp add: fragment_named_def)
next
  case (Cons nc frs)
  obtain m c where nc: "nc = (m, c)" by (cases nc)
  with Cons.prems have "valid_name m" by (simp add: fragment_ok_def)
  then have "search_name (block m c) = Some m" by (rule search_name_block)
  with Cons nc show ?case by (auto simp: fragment_named_def)
qed

lemma names_of_pairs:
  "list_all fragment_ok frs \<Longrightarrow>
     map search_name (map (\<lambda>nc. block (fst nc) (snd nc)) frs) = map Some (map fst frs)"
  by (induction frs) (simp_all add: fragment_ok_def search_name_block)

text \<open>
  C2, amended. Take an artifact whose extracted fragments have pairwise distinct names,
  no backslash and no nested begin marker, and a fresh draft that reads as text and
  placeholders (\<open>well_formed\<close>: no begin marker starts in the text or in a placeholder's
  body, and no placeholder's body contains its own end marker). Then extracting the
  fragments and injecting them into the draft succeeds, and the result is the draft with
  every placeholder whose name is the name of an extracted fragment replaced by that
  fragment, character for character, and every other character as it was.
\<close>

theorem manual_sections_round_trip:
  assumes "well_formed d"
    and "list_all simple_fragment (extract_manual_sections artifact)"
    and "distinct (map search_name (extract_manual_sections artifact))"
  shows "inject_manual_sections (render d) (extract_manual_sections artifact)
           = Inr (render_with (fragment_named (extract_manual_sections artifact)) d)"
proof -
  from extract_as_pairs [OF assms(2)] obtain frs where
    frs: "extract_manual_sections artifact = map (\<lambda>nc. block (fst nc) (snd nc)) frs"
    and ok: "list_all fragment_ok frs"
    by blast
  have "map search_name (extract_manual_sections artifact) = map Some (map fst frs)"
    by (simp only: frs names_of_pairs [OF ok])
  with assms(3) have "distinct (map Some (map fst frs))"
    by (simp only:)
  then have dist: "distinct (map fst frs)"
    by (metis distinct_map)
  have "inject_manual_sections (render d) (map (\<lambda>nc. block (fst nc) (snd nc)) frs)
          = Inr (render (fill frs d))"
    using inject_doc [OF ok assms(1)] fold_subst_fill [OF dist, of d] by simp
  also have "render (fill frs d) = render_with (\<lambda>n. map_option (block n) (map_of frs n)) d"
    by (rule render_fill)
  also have "(\<lambda>n. map_option (block n) (map_of frs n))
               = fragment_named (map (\<lambda>nc. block (fst nc) (snd nc)) frs)"
    using fragment_named_pairs [OF ok] by auto
  finally show ?thesis by (simp add: frs)
qed

lemmas marker_defs = begin_prefix_def end_prefix_def comment_close_def begin_marker_def
  end_marker_def

lemmas char_defs = word_char_def is_lower_def is_upper_def is_digit_def

lemmas match_defs = match_section_def match_begin_def match_placeholder_def

lemma extract_twice_n:
  "extract_manual_sections twice_n =
     [''<!-- MANUAL:n -->1<!-- /MANUAL:n -->'', ''<!-- MANUAL:n -->2<!-- /MANUAL:n -->'']"
  by (simp add: twice_n_def match_defs marker_defs char_defs)

text \<open>
  C2, as stated, fails: an artifact with two sections named \<open>n\<close> yields two fragments
  named \<open>n\<close>; the draft has a placeholder for \<open>n\<close>; each injection replaces what the one
  before put there, and the first fragment does not occur in the result at all.
\<close>

theorem same_name_fragment_lost_counterexample:
  "extract_manual_sections twice_n =
     [''<!-- MANUAL:n -->1<!-- /MANUAL:n -->'', ''<!-- MANUAL:n -->2<!-- /MANUAL:n -->'']
   \<and> search_name ''<!-- MANUAL:n -->1<!-- /MANUAL:n -->'' = Some ''n''
   \<and> match_placeholder ''n'' draft_n = Some (draft_n, [])
   \<and> inject_manual_sections draft_n (extract_manual_sections twice_n)
       = Inr ''<!-- MANUAL:n -->2<!-- /MANUAL:n -->''
   \<and> \<not> has_sub ''<!-- MANUAL:n -->1<!-- /MANUAL:n -->'' ''<!-- MANUAL:n -->2<!-- /MANUAL:n -->''"
proof -
  have a: "search_name ''<!-- MANUAL:n -->1<!-- /MANUAL:n -->'' = Some ''n''"
    by (simp add: match_defs marker_defs char_defs)
  have b: "match_placeholder ''n'' draft_n = Some (draft_n, [])"
    by (simp add: draft_n_def match_defs marker_defs)
  have c: "inject_manual_sections draft_n
             [''<!-- MANUAL:n -->1<!-- /MANUAL:n -->'', ''<!-- MANUAL:n -->2<!-- /MANUAL:n -->'']
           = Inr ''<!-- MANUAL:n -->2<!-- /MANUAL:n -->''"
    by (simp add: draft_n_def match_defs marker_defs char_defs re_sub_def expand_def)
  have d: "\<not> has_sub ''<!-- MANUAL:n -->1<!-- /MANUAL:n -->'' ''<!-- MANUAL:n -->2<!-- /MANUAL:n -->''"
    by simp
  from a b c d show ?thesis by (simp add: extract_twice_n)
qed

lemma extract_page_bio:
  "extract_manual_sections page_bio = [''<!-- MANUAL:bio -->Hand-written.<!-- /MANUAL:bio -->'']"
  by (simp add: page_bio_def match_defs marker_defs char_defs)

text \<open>
  Witness for C2: the hand-written section replaces the placeholder of its name; the
  other placeholder and the text stay.
\<close>

theorem manual_sections_round_trip_witness:
  "well_formed draft_bio
   \<and> list_all simple_fragment (extract_manual_sections page_bio)
   \<and> distinct (map search_name (extract_manual_sections page_bio))
   \<and> render draft_bio =
       ''<main><!-- MANUAL:bio -->TODO<!-- /MANUAL:bio --><hr><!-- MANUAL:links --><!-- /MANUAL:links --></main>''
   \<and> inject_manual_sections (render draft_bio) (extract_manual_sections page_bio) =
       Inr ''<main><!-- MANUAL:bio -->Hand-written.<!-- /MANUAL:bio --><hr><!-- MANUAL:links --><!-- /MANUAL:links --></main>''"
proof -
  have a: "well_formed draft_bio"
    by (simp add: draft_bio_def plain_def valid_name_def body_ok_def marker_defs char_defs)
  have b: "list_all simple_fragment (extract_manual_sections page_bio)"
    by (simp add: extract_page_bio simple_fragment_def marker_defs)
  have c: "distinct (map search_name (extract_manual_sections page_bio))"
    by (simp only: extract_page_bio list.map distinct_singleton)
  have r: "render draft_bio =
       ''<main><!-- MANUAL:bio -->TODO<!-- /MANUAL:bio --><hr><!-- MANUAL:links --><!-- /MANUAL:links --></main>''"
    by (simp add: draft_bio_def block_def marker_defs)
  have "render_with (fragment_named (extract_manual_sections page_bio)) draft_bio =
       ''<main><!-- MANUAL:bio -->Hand-written.<!-- /MANUAL:bio --><hr><!-- MANUAL:links --><!-- /MANUAL:links --></main>''"
    by (simp add: extract_page_bio fragment_named_def draft_bio_def block_def match_defs
        marker_defs char_defs)
  with manual_sections_round_trip [OF a b c] a b c r show ?thesis by simp
qed

text \<open>
  Why the fragments of C2 must be free of backslashes: \<open>re.sub\<close> reads the fragment as a
  template, so the two characters backslash and n of a hand-written \<open>C:\new\<close> come back
  as one newline.
\<close>

lemma backslash_fragment_altered:
  "inject_manual_sections ''<!-- MANUAL:m -->x<!-- /MANUAL:m -->''
     (extract_manual_sections (''<!-- MANUAL:m -->C:'' @ [CHR 0x5C] @ ''new<!-- /MANUAL:m -->''))
   = Inr (''<!-- MANUAL:m -->C:'' @ [CHR 0x0A] @ ''ew<!-- /MANUAL:m -->'')"
  by (simp add: match_defs marker_defs char_defs re_sub_def expand_def parse_escape_def
      control_escape_def)

end
